theory Spec2Isabelle
  imports Complex_Main "HOL-Library.Word" "HOL-Library.Signed_Division"
begin

section \<open>The executor ring of the plugin pipeline (tstspPluginExecutor.cpp)\<close>

text \<open>
  \<open>size_t\<close> is a 64-bit unsigned integer: \<open>+\<close> and \<open>-\<close> wrap around, \<open>mod\<close> and the
  order are the unsigned ones.
\<close>

type_synonym size_t = "64 word"

datatype PluginType = INPUT | PROCESSOR | OUTPUT

text \<open>
  The fields of one \<open>PluginExecutor\<close> that the window protocol reads and writes under the
  global mutex. \<open>buffer_count\<close> is \<open>_buffer->count()\<close>, the capacity of the packet buffer the
  executor points to. The types \<open>BitRate\<close> and \<open>BitRateConfidence\<close> are declared outside
  of this file of the repository: they are the type parameters \<open>'b\<close> and \<open>'c\<close>, the
  protocol only copies their values. \<open>tsp_timeout\<close> is \<open>None\<close> for \<open>Infinite\<close>.
\<close>

record ('b, 'c) executor =
  plugin_type :: PluginType
  buffer_count :: size_t
  pkt_first :: size_t
  pkt_cnt :: size_t
  input_end :: bool
  tsp_aborting :: bool
  bitrate :: 'b
  br_confidence :: 'c
  tsp_bitrate :: 'b
  tsp_bitrate_confidence :: 'c
  tsp_timeout :: "nat option"

text \<open>
  The ring is the list of its executors in chain order; the executor at position \<open>s\<close> has
  \<open>ringNext\<close> at position \<open>s + 1\<close> and \<open>ringPrevious\<close> at position \<open>s - 1\<close>, cyclically.
\<close>

type_synonym ('b, 'c) ring = "('b, 'c) executor list"

definition ringNext :: "('b, 'c) ring \<Rightarrow> nat \<Rightarrow> nat" where
  "ringNext r s = (s + 1) mod length r"

definition ringPrevious :: "('b, 'c) ring \<Rightarrow> nat \<Rightarrow> nat" where
  "ringPrevious r s = (s + length r - 1) mod length r"

text \<open>
  What a call can end with instead of returning: the \<open>assert\<close> of \<open>passPackets\<close> fails, the
  remainder by a buffer of zero packets is taken, the position names no executor of the ring,
  or a wait on the condition variable is never woken again.
\<close>

datatype error = AssertionFailed | DivisionByZero | NoSuchExecutor | WaitsForever

text \<open>\<open>setAbort\<close>: returns the ring and the executors whose \<open>_to_do\<close> was notified.\<close>

definition setAbort :: "nat \<Rightarrow> ('b, 'c) ring \<Rightarrow> error + (nat list \<times> ('b, 'c) ring)" where
  "setAbort s r =
     (if \<not> s < length r then Inl NoSuchExecutor
      else Inr ([ringPrevious r s], r[s := (r ! s)\<lparr>tsp_aborting := True\<rparr>]))"

text \<open>\<open>initBuffer\<close>, executed before the executor threads start.\<close>

definition initBuffer ::
  "nat \<Rightarrow> size_t \<Rightarrow> size_t \<Rightarrow> size_t \<Rightarrow> bool \<Rightarrow> bool \<Rightarrow> 'b \<Rightarrow> 'c \<Rightarrow> ('b, 'c) ring \<Rightarrow> ('b, 'c) ring" where
  "initBuffer s buffer first cnt inp_end aborted br conf r =
     r[s := (r ! s)\<lparr>buffer_count := buffer, pkt_first := first, pkt_cnt := cnt,
                     input_end := inp_end, tsp_aborting := aborted,
                     bitrate := br, br_confidence := conf,
                     tsp_bitrate := br, tsp_bitrate_confidence := conf\<rparr>]"

text \<open>
  \<open>passPackets\<close>, called by the executor at position \<open>s\<close>. The result is the returned
  boolean, the executors whose \<open>_to_do\<close> was notified (in the order of the calls to
  \<open>notify_one\<close>) and the ring after the call.
\<close>

definition passPackets ::
  "nat \<Rightarrow> size_t \<Rightarrow> 'b \<Rightarrow> 'c \<Rightarrow> bool \<Rightarrow> bool \<Rightarrow> ('b, 'c) ring
     \<Rightarrow> error + (bool \<times> nat list \<times> ('b, 'c) ring)" where
  "passPackets s count br conf inp_end aborted r =
     (if \<not> s < length r then Inl NoSuchExecutor
      else if \<not> count \<le> pkt_cnt (r ! s) then Inl AssertionFailed
      else if buffer_count (r ! s) = 0 then Inl DivisionByZero
      else
        let r1 = r[s := (r ! s)\<lparr>pkt_first := (pkt_first (r ! s) + count) mod buffer_count (r ! s),
                                 pkt_cnt := pkt_cnt (r ! s) - count\<rparr>];
            n = ringNext r s;
            r2 = r1[n := (r1 ! n)\<lparr>pkt_cnt := pkt_cnt (r1 ! n) + count,
                                   bitrate := br, br_confidence := conf,
                                   input_end := (input_end (r1 ! n) \<or> inp_end)\<rparr>];
            woken_next = (if 0 < count \<or> inp_end then [n] else []);
            aborted1 = (if plugin_type (r2 ! s) \<noteq> OUTPUT
                        then aborted \<or> tsp_aborting (r2 ! n) else aborted);
            r3 = (if aborted1 then r2[s := (r2 ! s)\<lparr>tsp_aborting := True\<rparr>] else r2);
            woken_prev = (if aborted1 then [ringPrevious r s] else [])
        in Inr (\<not> inp_end \<and> \<not> aborted1, woken_next @ woken_prev, r3))"

text \<open>
  Modelled from the spec: the output executor is not in the files of this repository. It
  releases the slots that it has sent with \<open>passPackets(count, ..., false, sendFailed)\<close>:
  the end of input is never what it passes on to the input executor.
\<close>

definition output_passPackets ::
  "nat \<Rightarrow> size_t \<Rightarrow> 'b \<Rightarrow> 'c \<Rightarrow> bool \<Rightarrow> ('b, 'c) ring
     \<Rightarrow> error + (bool \<times> nat list \<times> ('b, 'c) ring)" where
  "output_passPackets s count br conf send_failed r =
     passPackets s count br conf False send_failed r"

text \<open>
  The calls that the other threads make under the global mutex while an executor waits on
  its condition variable (the wait releases the mutex).
\<close>

datatype ('b, 'c) call =
  PassPackets nat size_t 'b 'c bool bool
  | SetAbort nat

fun run_call :: "('b, 'c) call \<Rightarrow> ('b, 'c) ring \<Rightarrow> error + ('b, 'c) ring" where
  "run_call (PassPackets s count br conf inp_end aborted) r =
     (case passPackets s count br conf inp_end aborted r of
        Inl e \<Rightarrow> Inl e
      | Inr (continue, woken, r') \<Rightarrow> Inr r')"
| "run_call (SetAbort s) r =
     (case setAbort s r of Inl e \<Rightarrow> Inl e | Inr (woken, r') \<Rightarrow> Inr r')"

fun run_calls :: "('b, 'c) call list \<Rightarrow> ('b, 'c) ring \<Rightarrow> error + ('b, 'c) ring" where
  "run_calls [] r = Inr r"
| "run_calls (c # cs) r = (case run_call c r of Inl e \<Rightarrow> Inl e | Inr r' \<Rightarrow> run_calls cs r')"

text \<open>
  One return of \<open>_to_do.wait\<close> or \<open>_to_do.wait_for\<close>: the calls of the other threads
  during the wait, whether \<open>wait_for\<close> returned \<open>cv_status::timeout\<close>, and what the plugin's
  \<open>handlePacketTimeout\<close> answers when it is asked (true: continue to wait).
\<close>

record ('b, 'c) wake =
  others :: "('b, 'c) call list"
  timed_out :: bool
  handler_continue :: bool

text \<open>The condition of the \<open>while\<close> loop of \<open>waitWork\<close>.\<close>

definition must_wait :: "nat \<Rightarrow> size_t \<Rightarrow> bool \<Rightarrow> ('b, 'c) ring \<Rightarrow> bool" where
  "must_wait s min_pkt_cnt timeout r \<longleftrightarrow>
     pkt_cnt (r ! s) < min_pkt_cnt \<and> \<not> input_end (r ! s) \<and> \<not> timeout
       \<and> \<not> tsp_aborting (r ! ringNext r s)"

text \<open>
  The loop of \<open>waitWork\<close>, over the returns of the wait that the executor will see. With
  an infinite timeout the wait is \<open>wait\<close>, which never times out; otherwise \<open>timeout\<close>
  becomes true when \<open>wait_for\<close> timed out and the handler does not ask to continue (the
  handler is only consulted after a timeout). A loop that must wait and is never woken
  does not return.
\<close>

fun waitWork_loop ::
  "nat \<Rightarrow> size_t \<Rightarrow> bool \<Rightarrow> ('b, 'c) wake list \<Rightarrow> ('b, 'c) ring \<Rightarrow> error + (bool \<times> ('b, 'c) ring)" where
  "waitWork_loop s min_pkt_cnt timeout [] r =
     (if must_wait s min_pkt_cnt timeout r then Inl WaitsForever else Inr (timeout, r))"
| "waitWork_loop s min_pkt_cnt timeout (w # ws) r =
     (if must_wait s min_pkt_cnt timeout r then
        (case run_calls (others w) r of
           Inl e \<Rightarrow> Inl e
         | Inr r' \<Rightarrow>
             waitWork_loop s min_pkt_cnt
               (if tsp_timeout (r ! s) = None then timeout
                else timed_out w \<and> \<not> handler_continue w)
               ws r')
      else Inr (timeout, r))"

text \<open>The output parameters of \<open>waitWork\<close>.\<close>

record ('b, 'c) work =
  w_pkt_first :: size_t
  w_pkt_cnt :: size_t
  w_bitrate :: 'b
  w_br_confidence :: 'c
  w_input_end :: bool
  w_aborted :: bool
  w_timeout :: bool

text \<open>The requested minimum after \<open>waitWork\<close> has cut it to the size of the buffer.\<close>

definition clamp_min :: "size_t \<Rightarrow> size_t \<Rightarrow> size_t" where
  "clamp_min min_pkt_cnt buffer = (if min_pkt_cnt > buffer then buffer else min_pkt_cnt)"

definition waitWork ::
  "nat \<Rightarrow> size_t \<Rightarrow> ('b, 'c) wake list \<Rightarrow> ('b, 'c) ring \<Rightarrow> error + (('b, 'c) work \<times> ('b, 'c) ring)" where
  "waitWork s min_pkt_cnt ws r =
     (if \<not> s < length r then Inl NoSuchExecutor
      else
        let m = clamp_min min_pkt_cnt (buffer_count (r ! s)) in
        case waitWork_loop s m False ws r of
          Inl e \<Rightarrow> Inl e
        | Inr (timeout, r') \<Rightarrow>
            let e = r' ! s;
                cnt = (if timeout then 0
                       else if pkt_first e + m \<le> buffer_count e
                       then min (pkt_cnt e) (buffer_count e - pkt_first e)
                       else pkt_cnt e)
            in Inr (\<lparr>w_pkt_first = pkt_first e, w_pkt_cnt = cnt,
                      w_bitrate = bitrate e, w_br_confidence = br_confidence e,
                      w_input_end = (input_end e \<and> cnt = pkt_cnt e),
                      w_aborted = (plugin_type e \<noteq> OUTPUT \<and> tsp_aborting (r' ! ringNext r' s)),
                      w_timeout = timeout\<rparr>, r'))"

subsection \<open>The initial state and the states that the pipeline reaches\<close>

text \<open>
  An executor before \<open>initBuffer\<close>: an empty window and no flag. The chain is one input,
  the packet processors and one output.
\<close>

definition new_executor :: "'b \<Rightarrow> 'c \<Rightarrow> PluginType \<Rightarrow> ('b, 'c) executor" where
  "new_executor br conf t =
     \<lparr>plugin_type = t, buffer_count = 0, pkt_first = 0, pkt_cnt = 0,
      input_end = False, tsp_aborting = False, bitrate = br, br_confidence = conf,
      tsp_bitrate = br, tsp_bitrate_confidence = conf, tsp_timeout = None\<rparr>"

definition plugin_chain :: "nat \<Rightarrow> PluginType list" where
  "plugin_chain n = INPUT # replicate (n - 2) PROCESSOR @ [OUTPUT]"

text \<open>
  Modelled from the spec: the caller of \<open>initBuffer\<close> is not in the files of this
  repository. It gives the input the whole buffer as its window, with no flag set, and
  every other executor an empty window that starts where the window of its predecessor
  ends, which is slot 0.
\<close>

definition initial_ring :: "size_t \<Rightarrow> nat \<Rightarrow> 'b \<Rightarrow> 'c \<Rightarrow> ('b, 'c) ring" where
  "initial_ring B n br conf =
     fold (\<lambda>k. initBuffer k B 0 (if k = 0 then B else 0) False False br conf)
          [0..<length (plugin_chain n)] (map (new_executor br conf) (plugin_chain n))"

inductive reachable :: "size_t \<Rightarrow> nat \<Rightarrow> 'b \<Rightarrow> 'c \<Rightarrow> ('b, 'c) ring \<Rightarrow> bool"
  for B :: size_t and n :: nat and br0 :: 'b and conf0 :: 'c where
  reachable_init: "reachable B n br0 conf0 (initial_ring B n br0 conf0)"
| reachable_pass:
    "reachable B n br0 conf0 r \<Longrightarrow>
     passPackets s count br conf inp_end aborted r = Inr (continue, woken, r') \<Longrightarrow>
     reachable B n br0 conf0 r'"

text \<open>The sum of the window counts, and the two ways to chain the windows.\<close>

definition count_sum :: "('b, 'c) ring \<Rightarrow> nat" where
  "count_sum r = sum_list (map (\<lambda>e. unat (pkt_cnt e)) r)"

definition window_end :: "size_t \<Rightarrow> ('b, 'c) executor \<Rightarrow> nat" where
  "window_end B e = (unat (pkt_first e) + unat (pkt_cnt e)) mod unat B"

text \<open>As the specification words it: the window of \<open>s\<close> ends where the one of \<open>next(s)\<close> starts.\<close>

definition next_follows :: "size_t \<Rightarrow> ('b, 'c) ring \<Rightarrow> nat \<Rightarrow> bool" where
  "next_follows B r s \<longleftrightarrow> window_end B (r ! s) = unat (pkt_first (r ! ringNext r s))"

text \<open>As the code has it: the window of \<open>next(s)\<close> ends where the one of \<open>s\<close> starts.\<close>

definition next_precedes :: "size_t \<Rightarrow> ('b, 'c) ring \<Rightarrow> nat \<Rightarrow> bool" where
  "next_precedes B r s \<longleftrightarrow> window_end B (r ! ringNext r s) = unat (pkt_first (r ! s))"

text \<open>
  What an operation leaves as it is: \<open>flags_kept\<close> says that no \<open>input_end\<close> and no
  \<open>aborting\<close> flag went back from true to false, \<open>same_plugins\<close> that the executors, their
  buffer and their timeout are the same.
\<close>

definition flags_kept :: "('b, 'c) ring \<Rightarrow> ('b, 'c) ring \<Rightarrow> bool" where
  "flags_kept r r' \<longleftrightarrow>
     length r' = length r \<and>
     (\<forall>k<length r. (input_end (r ! k) \<longrightarrow> input_end (r' ! k))
                 \<and> (tsp_aborting (r ! k) \<longrightarrow> tsp_aborting (r' ! k)))"

definition same_plugins :: "('b, 'c) ring \<Rightarrow> ('b, 'c) ring \<Rightarrow> bool" where
  "same_plugins r r' \<longleftrightarrow>
     length r' = length r \<and>
     (\<forall>k<length r. plugin_type (r' ! k) = plugin_type (r ! k)
                 \<and> buffer_count (r' ! k) = buffer_count (r ! k)
                 \<and> tsp_timeout (r' ! k) = tsp_timeout (r ! k))"

text \<open>
  A state with a window that wraps: in a buffer of 8 packets the packet processor owns
  the slots 6, 7, 0 and 1. The input reaches it from the initial state by passing 8
  packets, the processor then 6, the output 6 and the input 2 again.
\<close>

definition wrapped_ring :: "bool \<Rightarrow> nat option \<Rightarrow> (int, nat) ring" where
  "wrapped_ring ended tmo =
     [\<lparr>plugin_type = INPUT, buffer_count = 8, pkt_first = 2, pkt_cnt = 4,
       input_end = False, tsp_aborting = False, bitrate = 0, br_confidence = 0,
       tsp_bitrate = 0, tsp_bitrate_confidence = 0, tsp_timeout = None\<rparr>,
      \<lparr>plugin_type = PROCESSOR, buffer_count = 8, pkt_first = 6, pkt_cnt = 4,
       input_end = ended, tsp_aborting = False, bitrate = 0, br_confidence = 0,
       tsp_bitrate = 0, tsp_bitrate_confidence = 0, tsp_timeout = tmo\<rparr>,
      \<lparr>plugin_type = OUTPUT, buffer_count = 8, pkt_first = 6, pkt_cnt = 0,
       input_end = False, tsp_aborting = False, bitrate = 0, br_confidence = 0,
       tsp_bitrate = 0, tsp_bitrate_confidence = 0, tsp_timeout = None\<rparr>]"

text \<open>
  The invariant of the ring of \<open>n\<close> executors on a buffer of \<open>B\<close> packets: every
  executor points to that buffer and its window starts inside of it, the counts add up to
  \<open>B\<close>, and every window starts where the window of the next executor ends.
\<close>

definition ring_inv :: "size_t \<Rightarrow> nat \<Rightarrow> ('b, 'c) ring \<Rightarrow> bool" where
  "ring_inv B n r \<longleftrightarrow>
     length r = n
     \<and> (\<forall>s<n. buffer_count (r ! s) = B \<and> pkt_first (r ! s) < B)
     \<and> count_sum r = unat B
     \<and> (\<forall>s<n. next_precedes B r s)"

section \<open>The restart of a plugin (tstspPluginExecutor.cpp)\<close>

text \<open>
  A report is the list of the messages that it has received. The plugin sends its own
  messages to the sink that \<open>redirectReport\<close> has set: the report of \<open>tsp\<close> or the report
  of the restart operation, which belongs to the remote \<open>tspcontrol\<close>.
\<close>

datatype severity = Error | Warning | Info | Verbose | Debug

type_synonym message = "severity \<times> string"

datatype sink = TspReport | RestartReport

text \<open>
  The flags of the command line analysis. Their values are declared outside of the files
  of this repository; \<open>|\<close> on them is the union of sets of flags.
\<close>

datatype args_flag = NO_HELP | NO_EXIT_ON_ERROR | OtherFlag nat

text \<open>
  The plugin is any object behind the plugin interface, which is declared outside of the
  files of this repository: it is a parameter of the model, a state of type \<open>'p\<close> and the
  methods that \<open>processPendingRestart\<close> calls, each returning its result and the new state.
  \<open>resetContext\<close> is called with the options of the executor, which never change.
\<close>

record 'p plugin_api =
  stop :: "'p \<Rightarrow> bool \<times> 'p"
  start :: "'p \<Rightarrow> bool \<times> 'p"
  resetContext :: "'p \<Rightarrow> 'p"
  redirectReport :: "sink \<Rightarrow> 'p \<Rightarrow> sink \<times> 'p"
  getCommandArgs :: "'p \<Rightarrow> string list"
  getFlags :: "'p \<Rightarrow> args_flag set"
  setFlags :: "args_flag set \<Rightarrow> 'p \<Rightarrow> 'p"
  analyze :: "string \<Rightarrow> string list \<Rightarrow> bool \<Rightarrow> 'p \<Rightarrow> bool \<times> 'p"
  getOptions :: "'p \<Rightarrow> bool \<times> 'p"

text \<open>
  \<open>RestartData\<close>, shared by the thread that asks for the restart and the thread of the
  plugin, and the fields of the executor that the restart reads and writes.
\<close>

record RestartData =
  rd_report :: "message list"
  same_args :: bool
  rd_args :: "string list"
  completed :: bool

record 'p restart_state =
  plugin :: 'p
  pluginName :: string
  tsp_report :: "message list"
  plugin_packets :: nat
  restart :: bool
  restart_data :: "RestartData option"

text \<open>
  The expression \<open>analyze(pluginName(), args, false) && getOptions() && start()\<close>:
  \<open>&&\<close> does not call what follows a failure.
\<close>

definition analyze_getOptions_start ::
  "'p plugin_api \<Rightarrow> string \<Rightarrow> string list \<Rightarrow> 'p \<Rightarrow> bool \<times> 'p" where
  "analyze_getOptions_start api name args p =
     (let (analyzed, p1) = analyze api name args False p in
      if \<not> analyzed then (False, p1)
      else let (got, p2) = getOptions api p1 in
        if \<not> got then (False, p2) else start api p2)"

text \<open>
  Modelled from the spec: \<open>restartPluginSession\<close> belongs to a superclass that is not in
  the files of this repository; it resets the accounting of the plugin session.
\<close>

definition restartPluginSession :: "'p restart_state \<Rightarrow> 'p restart_state" where
  "restartPluginSession e = e\<lparr>plugin_packets := 0\<rparr>"

definition pendingRestart :: "'p restart_state \<Rightarrow> bool" where
  "pendingRestart e \<longleftrightarrow> restart e \<and> restart_data e \<noteq> None"

definition failed_restart_warning :: "string \<Rightarrow> message" where
  "failed_restart_warning name =
     (Warning, ''failed to restart plugin '' @ name @ '', restarting with previous parameters'')"

text \<open>
  \<open>processPendingRestart\<close>, under the global mutex and the mutex of the restart data. The
  result is the returned status, the output parameter \<open>restarted\<close>, the restart data as the
  requesting thread finds them, and the executor.
\<close>

definition processPendingRestart ::
  "'p plugin_api \<Rightarrow> 'p restart_state \<Rightarrow> bool \<times> bool \<times> RestartData option \<times> 'p restart_state" where
  "processPendingRestart api e =
     (case restart_data e of
        None \<Rightarrow> (True, False, None, e)
      | Some rd \<Rightarrow>
          if \<not> restart e then (True, False, Some rd, e)
          else
            let e1 = e\<lparr>tsp_report := tsp_report e @ [(Verbose, ''restarting due to remote tspcontrol'')]\<rparr>;
                rd1 = rd\<lparr>rd_report := rd_report rd @ [(Verbose, ''restarting plugin '' @ pluginName e)]\<rparr>;
                (stopped, p1) = stop api (plugin e1);
                e2 = restartPluginSession (e1\<lparr>plugin := p1\<rparr>);
                p2 = resetContext api (plugin e2);
                (previous_report, p3) = redirectReport api RestartReport p2;
                (success, rd2, p7) =
                  (if same_args rd1 then
                     let (started, p4) = start api p3 in (started, rd1, p4)
                   else
                     let previous_args = getCommandArgs api p3;
                         p4 = setFlags api (getFlags api p3 \<union> {NO_HELP, NO_EXIT_ON_ERROR}) p3;
                         (success1, p5) = analyze_getOptions_start api (pluginName e2) (rd_args rd1) p4
                     in if \<not> success1 then
                          let rd2 = rd1\<lparr>rd_report := rd_report rd1 @ [failed_restart_warning (pluginName e2)]\<rparr>;
                              (success2, p6) = analyze_getOptions_start api (pluginName e2) previous_args p5
                          in (success2, rd2, p6)
                        else (success1, rd1, p5));
                (restored, p8) = redirectReport api previous_report p7;
                rd3 = rd2\<lparr>completed := True\<rparr>;
                e3 = e2\<lparr>plugin := p8, restart := False, restart_data := None,
                        tsp_report := tsp_report e2 @
                          [(Debug, ''restarted plugin '' @ pluginName e2 @ '', status: ''
                                   @ (if success then ''true'' else ''false''))]\<rparr>
            in (success, True, Some rd3, e3))"

text \<open>
  The state of the plugin when the new arguments are analyzed, after \<open>stop\<close>,
  \<open>resetContext\<close>, \<open>redirectReport\<close> and \<open>setFlags\<close>, and the arguments that
  \<open>getCommandArgs\<close> has saved before.
\<close>

definition before_analyze :: "'p plugin_api \<Rightarrow> 'p \<Rightarrow> 'p" where
  "before_analyze api p =
     (let p3 = snd (redirectReport api RestartReport (resetContext api (snd (stop api p))))
      in setFlags api (getFlags api p3 \<union> {NO_HELP, NO_EXIT_ON_ERROR}) p3)"

definition saved_args :: "'p plugin_api \<Rightarrow> 'p \<Rightarrow> string list" where
  "saved_args api p =
     getCommandArgs api (snd (redirectReport api RestartReport (resetContext api (snd (stop api p)))))"

text \<open>
  An example: a plugin whose command line is refused when it contains \<open>--invalid\<close>, and
  an executor that has been asked to restart it with such a command line.
\<close>

record file_plugin =
  fp_args :: "string list"
  fp_flags :: "args_flag set"
  fp_report :: sink
  fp_started :: bool

definition file_plugin_api :: "file_plugin plugin_api" where
  "file_plugin_api =
     \<lparr>stop = (\<lambda>p. (True, p\<lparr>fp_started := False\<rparr>)),
      start = (\<lambda>p. (True, p\<lparr>fp_started := True\<rparr>)),
      resetContext = (\<lambda>p. p),
      redirectReport = (\<lambda>s p. (fp_report p, p\<lparr>fp_report := s\<rparr>)),
      getCommandArgs = fp_args,
      getFlags = fp_flags,
      setFlags = (\<lambda>f p. p\<lparr>fp_flags := f\<rparr>),
      analyze = (\<lambda>name args partial p. (''--invalid'' \<notin> set args, p\<lparr>fp_args := args\<rparr>)),
      getOptions = (\<lambda>p. (True, p))\<rparr>"

definition restart_requested :: "file_plugin restart_state" where
  "restart_requested =
     \<lparr>plugin = \<lparr>fp_args = [''--pid'', ''100''], fp_flags = {}, fp_report = TspReport, fp_started = True\<rparr>,
      pluginName = ''file'', tsp_report = [], plugin_packets = 42, restart = True,
      restart_data = Some \<lparr>rd_report = [], same_args = False, rd_args = [''--invalid''],
                            completed = False\<rparr>\<rparr>"

section \<open>The bitrate monitor plugin (class BitrateMonitorPlugin)\<close>

text \<open>
  Modelled from the spec: the constants of the time units and of the transport stream
  are declared outside of the files of this repository. A packet is 188 bytes, that is
  1504 bits; the null PID is \<open>0x1FFF\<close>.
\<close>

definition NanoSecPerSec :: int where "NanoSecPerSec = 1000000000"

definition NanoSecPerMicroSec :: int where "NanoSecPerMicroSec = 1000"

definition MicroSecPerSec :: int where "MicroSecPerSec = 1000000"

definition MilliSecPerSec :: nat where "MilliSecPerSec = 1000"

definition PKT_SIZE_BITS :: nat where "PKT_SIZE_BITS = 8 * 188"

definition PID_NULL :: nat where "PID_NULL = 0x1FFF"

text \<open>
  What is received during about one second. \<open>NanoSecond\<close> is a signed and
  \<open>PacketCounter\<close> an unsigned 64-bit integer; they are \<open>int\<close> and \<open>nat\<close> here: the
  sum of the durations of a window is at most the time for which the monotonic clock has
  run, and the sum of its packets at most the number of packets that the process has
  seen, and neither reaches \<open>2^63\<close>.
\<close>

datatype RangeStatus = LOWER | IN_RANGE | GREATER

record Period =
  duration :: int
  packets :: nat
  non_null :: nat

definition Period_clear :: "Period \<Rightarrow> Period" where
  "Period_clear p = p\<lparr>duration := 0, packets := 0, non_null := 0\<rparr>"

text \<open>
  What the plugin reports: the periodic display of the bitrate (with the net bitrate when
  the whole stream is monitored), the warning of a change of state, and the launch of the
  alarm command.
\<close>

datatype 'b report =
  PeriodicBitrate 'b "'b option"
  | AlarmWarning RangeStatus 'b
  | AlarmCommand RangeStatus 'b 'b

text \<open>
  The options and the working data of the plugin. The type \<open>BitRate\<close> is declared
  outside of the files of this repository: it is the type parameter \<open>'b\<close>, an ordered
  ring with a division, which is the division of the integers at \<open>int\<close> and the exact one
  at \<open>rat\<close>. \<open>stats\<close> and \<open>net_stats\<close> are the values fed to the two statistics,
  \<open>packet_timeout\<close> is what \<open>start\<close> asks from \<open>tsp\<close>, \<open>last_second\<close> a reading of the
  monotonic clock in nanoseconds.
\<close>

record 'b monitor =
  full_ts :: bool
  summary :: bool
  pids :: "nat set"
  min_bitrate :: 'b
  max_bitrate :: 'b
  periodic_bitrate :: int
  periodic_command :: int
  window_size :: nat
  alarm_command :: string
  labels_below :: "nat set"
  labels_normal :: "nat set"
  labels_above :: "nat set"
  labels_go_below :: "nat set"
  labels_go_normal :: "nat set"
  labels_go_above :: "nat set"
  bitrate_countdown :: int
  command_countdown :: int
  last_bitrate_status :: RangeStatus
  last_second :: int
  startup :: bool
  periods_index :: nat
  periods :: "Period list"
  labels_next :: "nat set"
  stats :: "int list"
  net_stats :: "int list"
  packet_timeout :: "nat option"
  reports :: "'b report list"

text \<open>
  \<open>start\<close>; \<open>now\<close> is the reading of the clock by \<open>getSystemTime\<close>.
\<close>

definition monitor_start :: "int \<Rightarrow> 'b monitor \<Rightarrow> bool \<times> 'b monitor" where
  "monitor_start now st =
     (True, st\<lparr>periods := replicate (window_size st) \<lparr>duration = 0, packets = 0, non_null = 0\<rparr>,
               periods_index := 0, labels_next := {},
               bitrate_countdown := periodic_bitrate st, command_countdown := periodic_command st,
               last_bitrate_status := IN_RANGE, last_second := now, startup := True,
               stats := [], net_stats := [], packet_timeout := Some MilliSecPerSec\<rparr>)"

text \<open>
  \<open>computeBitrate\<close>. First the loop over the periods and the two bitrates;
  \<open>duration /= NanoSecPerMicroSec\<close> rounds towards zero.
\<close>

definition period_totals :: "Period list \<Rightarrow> int \<times> nat \<times> nat" where
  "period_totals ps =
     fold (\<lambda>p (d, total_pkt_count, non_null_count).
             (d + duration p, total_pkt_count + packets p, non_null_count + non_null p))
          ps (0, 0, 0)"

definition computeBitrate_rates :: "Period list \<Rightarrow> ('b::{linordered_idom,divide}) \<times> 'b" where
  "computeBitrate_rates ps =
     (let (duration0, total_pkt_count, non_null_count) = period_totals ps;
          d = duration0 sdiv NanoSecPerMicroSec
      in if d > 0
         then (of_nat total_pkt_count * of_nat PKT_SIZE_BITS * of_int MicroSecPerSec div of_int d,
               of_nat non_null_count * of_nat PKT_SIZE_BITS * of_int MicroSecPerSec div of_int d)
         else (0, 0))"

text \<open>
  Then the blocks of the function, in their order: the statistics for the final report,
  the status of the bitrate in the allowed range, the periodic display, the periodic
  launch of the command (\<open>--countdown\<close> happens only when the period is set), and the
  alarm on a change of state or a periodic launch. \<open>toInt64\<close> is the conversion of
  \<open>BitRate\<close> of that name.
\<close>

definition feed_statistics ::
  "('b \<Rightarrow> int) \<Rightarrow> 'b \<Rightarrow> 'b \<Rightarrow> 'b monitor \<Rightarrow> 'b monitor" where
  "feed_statistics toInt64 rate net_rate st =
     (if summary st
      then st\<lparr>stats := stats st @ [toInt64 rate],
              net_stats := net_stats st @ [toInt64 net_rate]\<rparr>
      else st)"

definition range_status :: "('b::linorder) \<Rightarrow> 'b monitor \<Rightarrow> RangeStatus" where
  "range_status rate st =
     (if rate < min_bitrate st then LOWER
      else if rate > max_bitrate st then GREATER else IN_RANGE)"

definition periodic_display :: "'b \<Rightarrow> 'b \<Rightarrow> 'b monitor \<Rightarrow> 'b monitor" where
  "periodic_display rate net_rate st =
     (if periodic_bitrate st > 0 then
        if bitrate_countdown st - 1 \<le> 0
        then st\<lparr>bitrate_countdown := periodic_bitrate st,
                reports := reports st @
                  [PeriodicBitrate rate (if full_ts st then Some net_rate else None)]\<rparr>
        else st\<lparr>bitrate_countdown := bitrate_countdown st - 1\<rparr>
      else st)"

definition periodic_launch :: "'b monitor \<Rightarrow> bool \<times> 'b monitor" where
  "periodic_launch st =
     (if periodic_command st > 0 then
        if command_countdown st - 1 \<le> 0
        then (True, st\<lparr>command_countdown := periodic_command st\<rparr>)
        else (False, st\<lparr>command_countdown := command_countdown st - 1\<rparr>)
      else (False, st))"

definition raise_alarm ::
  "bool \<Rightarrow> RangeStatus \<Rightarrow> 'b \<Rightarrow> 'b \<Rightarrow> 'b monitor \<Rightarrow> 'b monitor" where
  "raise_alarm state_change new_bitrate_status rate net_rate st =
     (let st1 = (if state_change
                 then st\<lparr>labels_next := labels_next st \<union>
                            (case new_bitrate_status of
                               LOWER \<Rightarrow> labels_go_below st
                             | IN_RANGE \<Rightarrow> labels_go_normal st
                             | GREATER \<Rightarrow> labels_go_above st),
                         reports := reports st @ [AlarmWarning new_bitrate_status rate]\<rparr>
                 else st);
          st2 = (if alarm_command st1 \<noteq> []
                 then st1\<lparr>reports := reports st1 @
                            [AlarmCommand new_bitrate_status rate net_rate]\<rparr>
                 else st1)
      in st2\<lparr>last_bitrate_status := new_bitrate_status\<rparr>)"

definition computeBitrate ::
  "('b \<Rightarrow> int) \<Rightarrow> ('b::{linordered_idom,divide}) monitor \<Rightarrow> 'b monitor" where
  "computeBitrate toInt64 st =
     (let (bitrate, net_bitrate) = computeBitrate_rates (periods st);
          st1 = feed_statistics toInt64 bitrate net_bitrate st;
          new_bitrate_status = range_status bitrate st1;
          st2 = periodic_display bitrate net_bitrate st1;
          (run_command, st3) = periodic_launch st2;
          state_change = (new_bitrate_status \<noteq> last_bitrate_status st3)
      in if state_change \<or> run_command
         then raise_alarm state_change new_bitrate_status bitrate net_bitrate st3
         else st3)"

text \<open>
  \<open>checkTime\<close>; \<open>now\<close> is the reading of the monotonic clock. With a window of no
  period at all, \<open>_periods[_periods_index]\<close> is outside of the vector.
\<close>

datatype monitor_error = IndexOutOfRange

definition checkTime ::
  "('b \<Rightarrow> int) \<Rightarrow> int \<Rightarrow> ('b::{linordered_idom,divide}) monitor \<Rightarrow> monitor_error + 'b monitor" where
  "checkTime toInt64 now st =
     (let since_last_second = now - last_second st in
      if since_last_second \<ge> NanoSecPerSec then
        if \<not> periods_index st < length (periods st) then Inl IndexOutOfRange
        else
          let st1 = st\<lparr>periods := (periods st)[periods_index st :=
                                       (periods st ! periods_index st)\<lparr>duration := since_last_second\<rparr>],
                       last_second := now\<rparr>;
              st2 = (if \<not> startup st1 then computeBitrate toInt64 st1 else st1);
              i = (periods_index st2 + 1) mod length (periods st2);
              st3 = st2\<lparr>periods_index := i,
                        periods := (periods st2)[i := Period_clear (periods st2 ! i)]\<rparr>
          in Inr (if startup st3 then st3\<lparr>startup := (periods_index st3 \<noteq> 0)\<rparr> else st3)
      else Inr st)"

definition handlePacketTimeout ::
  "('b \<Rightarrow> int) \<Rightarrow> int \<Rightarrow> ('b::{linordered_idom,divide}) monitor \<Rightarrow> monitor_error + (bool \<times> 'b monitor)" where
  "handlePacketTimeout toInt64 now st =
     (case checkTime toInt64 now st of Inl e \<Rightarrow> Inl e | Inr st' \<Rightarrow> Inr (True, st'))"

text \<open>
  \<open>processPacket\<close>, for a packet with the given PID and metadata labels; the result is
  the labels of the packet after the call. The returned status is always \<open>TSP_OK\<close>.
\<close>

definition processPacket ::
  "('b \<Rightarrow> int) \<Rightarrow> int \<Rightarrow> nat \<Rightarrow> nat set \<Rightarrow> ('b::{linordered_idom,divide}) monitor
     \<Rightarrow> monitor_error + (nat set \<times> 'b monitor)" where
  "processPacket toInt64 now pid pkt_labels st =
     (if pid \<in> pids st \<and> \<not> periods_index st < length (periods st) then Inl IndexOutOfRange
      else
        let p = periods st ! periods_index st;
            st1 = (if pid \<in> pids st
                   then st\<lparr>periods := (periods st)[periods_index st :=
                             p\<lparr>packets := packets p + 1,
                               non_null := (if pid \<noteq> PID_NULL then non_null p + 1 else non_null p)\<rparr>]\<rparr>
                   else st)
        in case checkTime toInt64 now st1 of
             Inl e \<Rightarrow> Inl e
           | Inr st2 \<Rightarrow>
               let labels1 = pkt_labels \<union> labels_next st2;
                   st3 = st2\<lparr>labels_next := {}\<rparr>;
                   labels2 = labels1 \<union>
                     (case last_bitrate_status st3 of
                        LOWER \<Rightarrow> labels_below st3
                      | IN_RANGE \<Rightarrow> labels_normal st3
                      | GREATER \<Rightarrow> labels_above st3)
               in Inr (labels2, st3))"

text \<open>
  A run of calls of \<open>checkTime\<close> at the given readings of the clock, and the runs
  where every reading is one second or more after the previous one.
\<close>

fun run_checkTime ::
  "('b \<Rightarrow> int) \<Rightarrow> int list \<Rightarrow> ('b::{linordered_idom,divide}) monitor \<Rightarrow> monitor_error + 'b monitor" where
  "run_checkTime toInt64 [] st = Inr st"
| "run_checkTime toInt64 (now # ts) st =
     (case checkTime toInt64 now st of Inl e \<Rightarrow> Inl e | Inr st' \<Rightarrow> run_checkTime toInt64 ts st')"

fun second_boundaries :: "int \<Rightarrow> int list \<Rightarrow> bool" where
  "second_boundaries t [] = True"
| "second_boundaries t (now # ts) \<longleftrightarrow> now - t \<ge> NanoSecPerSec \<and> second_boundaries now ts"

text \<open>
  After \<open>j\<close> second boundaries since \<open>start\<close>, with a window of \<open>W\<close> periods: where the
  plugin is in its window, and that nothing has been computed or reported (\<open>rs\<close> are the
  reports before \<open>start\<close>) as long as the window has not been filled.
\<close>

definition monitor_inv :: "nat \<Rightarrow> nat \<Rightarrow> 'b report list \<Rightarrow> 'b monitor \<Rightarrow> bool" where
  "monitor_inv W j rs st \<longleftrightarrow>
     length (periods st) = W \<and> periods_index st = j mod W \<and> startup st = (j < W)
     \<and> (summary st \<longrightarrow> length (stats st) = j - W)
     \<and> (j \<le> W \<longrightarrow> last_bitrate_status st = IN_RANGE \<and> reports st = rs \<and> stats st = [])"

text \<open>
  The period that \<open>checkTime\<close> closes at the reading \<open>now\<close> of the clock, among the
  other periods of the window.
\<close>

definition closed_periods :: "int \<Rightarrow> 'b monitor \<Rightarrow> Period list" where
  "closed_periods now st =
     (periods st)[periods_index st :=
        (periods st ! periods_index st)\<lparr>duration := now - last_second st\<rparr>]"

text \<open>
  Examples: a monitor of the whole stream with a window of two seconds and a final
  summary; the same in the course of a measurement; and one without summary whose window
  of two seconds has gone by with no packet at all.
\<close>

definition monitor0 :: "rat monitor" where
  "monitor0 =
     \<lparr>full_ts = True, summary = True, pids = {0..<8192}, min_bitrate = 10, max_bitrate = 0xFFFFFFFF,
      periodic_bitrate = 0, periodic_command = 0, window_size = 2, alarm_command = [],
      labels_below = {}, labels_normal = {}, labels_above = {},
      labels_go_below = {}, labels_go_normal = {}, labels_go_above = {},
      bitrate_countdown = 0, command_countdown = 0, last_bitrate_status = LOWER,
      last_second = 0, startup = False, periods_index = 0, periods = [], labels_next = {},
      stats = [], net_stats = [], packet_timeout = None, reports = []\<rparr>"

definition measuring_monitor :: "rat monitor" where
  "measuring_monitor =
     (snd (monitor_start 0 monitor0))
       \<lparr>periods := [\<lparr>duration = 0, packets = 1000, non_null = 900\<rparr>,
                    \<lparr>duration = 1000000999, packets = 1000, non_null = 1000\<rparr>],
        last_second := 2000000999, startup := False\<rparr>"

definition idle_monitor :: "rat monitor" where
  "idle_monitor =
     (snd (monitor_start 0 (monitor0\<lparr>summary := False\<rparr>)))
       \<lparr>periods := [\<lparr>duration = 0, packets = 0, non_null = 0\<rparr>,
                    \<lparr>duration = 1000000000, packets = 0, non_null = 0\<rparr>],
        last_second := 2000000000, startup := False\<rparr>"

section \<open>The store of logical channel numbers (tsLogicalChannelNumbers.cpp)\<close>

text \<open>
  One LCN of the store; the service id is the key. The store is a \<open>std::multimap\<close>: a
  list of entries in the order of their keys, the entries of one key in the order of their
  insertion. An iterator is a position in the list, \<open>end()\<close> is its length.
\<close>

type_synonym uint16_t = "16 word"

record LCN =
  lcn :: uint16_t
  ts_id :: uint16_t
  onet_id :: uint16_t
  visible :: bool

type_synonym LCNMap = "(uint16_t \<times> LCN) list"

definition lower_bound :: "LCNMap \<Rightarrow> uint16_t \<Rightarrow> nat" where
  "lower_bound m k = length (takeWhile (\<lambda>e. fst e < k) m)"

definition upper_bound :: "LCNMap \<Rightarrow> uint16_t \<Rightarrow> nat" where
  "upper_bound m k = length (takeWhile (\<lambda>e. fst e \<le> k) m)"

text \<open>
  The loop of \<open>findLCN\<close>, from the iterator \<open>it\<close> on; \<open>result\<close> is the possible match
  that it has kept.
\<close>

function findLCN_loop ::
  "LCNMap \<Rightarrow> uint16_t \<Rightarrow> uint16_t \<Rightarrow> uint16_t \<Rightarrow> nat \<Rightarrow> nat \<Rightarrow> nat" where
  "findLCN_loop m srv_id ts onet it result =
     (if it < length m \<and> fst (m ! it) = srv_id then
        if ts_id (snd (m ! it)) = ts then
          if onet_id (snd (m ! it)) = onet then it
          else if onet_id (snd (m ! it)) = 0xFFF then findLCN_loop m srv_id ts onet (it + 1) it
          else findLCN_loop m srv_id ts onet (it + 1) result
        else findLCN_loop m srv_id ts onet (it + 1) result
      else result)"
  by pat_completeness auto
termination
  by (relation "measure (\<lambda>(m, srv_id, ts, onet, it, result). length m - it)") auto

declare findLCN_loop.simps [simp del]

definition findLCN :: "LCNMap \<Rightarrow> uint16_t \<Rightarrow> uint16_t \<Rightarrow> uint16_t \<Rightarrow> nat" where
  "findLCN m srv_id ts onet = findLCN_loop m srv_id ts onet (lower_bound m srv_id) (length m)"

definition getLCN :: "LCNMap \<Rightarrow> uint16_t \<Rightarrow> uint16_t \<Rightarrow> uint16_t \<Rightarrow> uint16_t" where
  "getLCN m srv_id ts onet =
     (let it = findLCN m srv_id ts onet in if it = length m then 0xFFFF else lcn (snd (m ! it)))"

text \<open>
  \<open>addLCN\<close>: the loop that looks for an entry to update, and the insertion of a new
  entry, which \<open>std::multimap::insert\<close> puts after the entries of the same key.
\<close>

function addLCN_loop :: "LCNMap \<Rightarrow> uint16_t \<Rightarrow> uint16_t \<Rightarrow> uint16_t \<Rightarrow> nat \<Rightarrow> nat option" where
  "addLCN_loop m srv_id ts onet it =
     (if it < length m \<and> fst (m ! it) = srv_id then
        if ts_id (snd (m ! it)) = ts \<and> onet_id (snd (m ! it)) = onet then Some it
        else addLCN_loop m srv_id ts onet (it + 1)
      else None)"
  by pat_completeness auto
termination
  by (relation "measure (\<lambda>(m, srv_id, ts, onet, it). length m - it)") auto

declare addLCN_loop.simps [simp del]

definition addLCN :: "uint16_t \<Rightarrow> uint16_t \<Rightarrow> uint16_t \<Rightarrow> uint16_t \<Rightarrow> bool \<Rightarrow> LCNMap \<Rightarrow> LCNMap" where
  "addLCN l srv_id ts onet vis m =
     (case addLCN_loop m srv_id ts onet (lower_bound m srv_id) of
        Some it \<Rightarrow> m[it := (fst (m ! it), (snd (m ! it))\<lparr>lcn := l, visible := vis\<rparr>)]
      | None \<Rightarrow>
          take (upper_bound m srv_id) m
            @ [(srv_id, \<lparr>lcn = l, ts_id = ts, onet_id = onet, visible = vis\<rparr>)]
            @ drop (upper_bound m srv_id) m)"

text \<open>
  What \<open>findLCN\<close> may return: \<open>end()\<close>, or an entry of the service and the transport
  stream that were asked for, whose original network id is the one asked for or \<open>0xFFF\<close>.
\<close>

definition fallback_ok :: "LCNMap \<Rightarrow> uint16_t \<Rightarrow> uint16_t \<Rightarrow> uint16_t \<Rightarrow> nat \<Rightarrow> bool" where
  "fallback_ok m srv_id ts onet it \<longleftrightarrow>
     it = length m \<or>
     (it < length m \<and> fst (m ! it) = srv_id \<and> ts_id (snd (m ! it)) = ts
       \<and> (onet_id (snd (m ! it)) = onet \<or> onet_id (snd (m ! it)) = 0xFFF))"

text \<open>
  An example: a store where the service 100 on the transport stream 1 has an LCN with
  the original network id \<open>0xFFFF\<close>, for "unspecified", and one with \<open>0xFFF\<close>.
\<close>

definition lcn_store :: LCNMap where
  "lcn_store = addLCN 7 100 1 0xFFF True (addLCN 5 100 1 0xFFFF True (addLCN 9 50 1 0x20 True []))"

section \<open>Properties of the executor ring\<close>


lemma ringNext_less: "s < length r \<Longrightarrow> ringNext r s < length r"
proof -
  assume "s < length r"
  then have "0 < length r" by arith
  then show ?thesis unfolding ringNext_def by (rule mod_less_divisor)
qed

lemma ringPrevious_less: "s < length r \<Longrightarrow> ringPrevious r s < length r"
proof -
  assume "s < length r"
  then have "0 < length r" by arith
  then show ?thesis unfolding ringPrevious_def by (rule mod_less_divisor)
qed

lemma ringNext_neq: "s < length r \<Longrightarrow> 1 < length r \<Longrightarrow> ringNext r s \<noteq> s"
  by (auto simp: ringNext_def mod_Suc split: if_splits)

lemma flags_kept_refl: "flags_kept r r"
  by (simp add: flags_kept_def)

lemma flags_kept_trans: "flags_kept r r' \<Longrightarrow> flags_kept r' r'' \<Longrightarrow> flags_kept r r''"
  by (simp add: flags_kept_def)

lemma same_plugins_refl: "same_plugins r r"
  by (simp add: same_plugins_def)

lemma same_plugins_trans: "same_plugins r r' \<Longrightarrow> same_plugins r' r'' \<Longrightarrow> same_plugins r r''"
  by (simp add: same_plugins_def)

lemma passPackets_flags_kept:
  assumes "passPackets s count br conf inp_end aborted r = Inr (continue, woken, r')"
  shows "flags_kept r r'"
proof -
  from assms have s: "s < length r"
    by (simp add: passPackets_def split: if_splits)
  then have n: "ringNext r s < length r" by (rule ringNext_less)
  from assms s n show ?thesis
    by (auto simp: passPackets_def Let_def flags_kept_def nth_list_update split: if_splits)
qed

lemma passPackets_same_plugins:
  assumes "passPackets s count br conf inp_end aborted r = Inr (continue, woken, r')"
  shows "same_plugins r r'"
proof -
  from assms have s: "s < length r"
    by (simp add: passPackets_def split: if_splits)
  then have n: "ringNext r s < length r" by (rule ringNext_less)
  from assms s n show ?thesis
    by (auto simp: passPackets_def Let_def same_plugins_def nth_list_update split: if_splits)
qed

lemma setAbort_flags_kept: "setAbort s r = Inr (woken, r') \<Longrightarrow> flags_kept r r'"
  by (auto simp: setAbort_def flags_kept_def nth_list_update split: if_splits)

lemma setAbort_same_plugins: "setAbort s r = Inr (woken, r') \<Longrightarrow> same_plugins r r'"
  by (auto simp: setAbort_def same_plugins_def nth_list_update split: if_splits)

lemma run_call_flags_kept: "run_call c r = Inr r' \<Longrightarrow> flags_kept r r'"
  by (cases c) (auto split: sum.splits dest: passPackets_flags_kept setAbort_flags_kept)

lemma run_call_same_plugins: "run_call c r = Inr r' \<Longrightarrow> same_plugins r r'"
  by (cases c) (auto split: sum.splits dest: passPackets_same_plugins setAbort_same_plugins)

lemma run_calls_flags_kept: "run_calls cs r = Inr r' \<Longrightarrow> flags_kept r r'"
proof (induction cs arbitrary: r)
  case Nil
  then show ?case by (simp add: flags_kept_refl)
next
  case (Cons c cs)
  then show ?case
    by (auto split: sum.splits dest: run_call_flags_kept intro: flags_kept_trans)
qed

lemma run_calls_same_plugins: "run_calls cs r = Inr r' \<Longrightarrow> same_plugins r r'"
proof (induction cs arbitrary: r)
  case Nil
  then show ?case by (simp add: same_plugins_refl)
next
  case (Cons c cs)
  then show ?case
    by (auto split: sum.splits dest: run_call_same_plugins intro: same_plugins_trans)
qed

lemma waitWork_loop_flags_kept:
  "waitWork_loop s m t ws r = Inr (t', r') \<Longrightarrow> flags_kept r r'"
proof (induction ws arbitrary: r t)
  case Nil
  then show ?case by (auto simp: flags_kept_refl split: if_splits)
next
  case (Cons w ws)
  then show ?case
    by (auto simp: flags_kept_refl split: if_splits sum.splits
        dest: run_calls_flags_kept intro: flags_kept_trans)
qed

lemma waitWork_loop_same_plugins:
  "waitWork_loop s m t ws r = Inr (t', r') \<Longrightarrow> same_plugins r r'"
proof (induction ws arbitrary: r t)
  case Nil
  then show ?case by (auto simp: same_plugins_refl split: if_splits)
next
  case (Cons w ws)
  then show ?case
    by (auto simp: same_plugins_refl split: if_splits sum.splits
        dest: run_calls_same_plugins intro: same_plugins_trans)
qed

lemma waitWork_Inr:
  assumes "waitWork s min_pkt_cnt ws r = Inr (wk, r')"
  shows "s < length r \<and> (\<exists>t.
      waitWork_loop s (clamp_min min_pkt_cnt (buffer_count (r ! s))) False ws r = Inr (t, r')
    \<and> w_timeout wk = t
    \<and> w_pkt_cnt wk = (if t then 0
           else if pkt_first (r' ! s) + clamp_min min_pkt_cnt (buffer_count (r ! s)) \<le> buffer_count (r' ! s)
           then min (pkt_cnt (r' ! s)) (buffer_count (r' ! s) - pkt_first (r' ! s))
           else pkt_cnt (r' ! s))
    \<and> w_input_end wk = (input_end (r' ! s) \<and> w_pkt_cnt wk = pkt_cnt (r' ! s))
    \<and> w_aborted wk = (plugin_type (r' ! s) \<noteq> OUTPUT \<and> tsp_aborting (r' ! ringNext r' s))
    \<and> w_pkt_first wk = pkt_first (r' ! s)
    \<and> w_bitrate wk = bitrate (r' ! s) \<and> w_br_confidence wk = br_confidence (r' ! s))"
proof -
  from assms have s: "s < length r"
    by (simp add: waitWork_def split: if_splits)
  obtain t r1 where l: "waitWork_loop s (clamp_min min_pkt_cnt (buffer_count (r ! s))) False ws r = Inr (t, r1)"
    using assms s by (cases "waitWork_loop s (clamp_min min_pkt_cnt (buffer_count (r ! s))) False ws r")
      (auto simp: waitWork_def Let_def)
  from assms s l have r1: "r1 = r'" and wk: "wk = \<lparr>w_pkt_first = pkt_first (r1 ! s), w_pkt_cnt = (if t then 0
                       else if pkt_first (r1 ! s) + clamp_min min_pkt_cnt (buffer_count (r ! s)) \<le> buffer_count (r1 ! s)
                       then min (pkt_cnt (r1 ! s)) (buffer_count (r1 ! s) - pkt_first (r1 ! s))
                       else pkt_cnt (r1 ! s)),
                      w_bitrate = bitrate (r1 ! s), w_br_confidence = br_confidence (r1 ! s),
                      w_input_end = (input_end (r1 ! s) \<and> (if t then 0
                       else if pkt_first (r1 ! s) + clamp_min min_pkt_cnt (buffer_count (r ! s)) \<le> buffer_count (r1 ! s)
                       then min (pkt_cnt (r1 ! s)) (buffer_count (r1 ! s) - pkt_first (r1 ! s))
                       else pkt_cnt (r1 ! s)) = pkt_cnt (r1 ! s)),
                      w_aborted = (plugin_type (r1 ! s) \<noteq> OUTPUT \<and> tsp_aborting (r1 ! ringNext r1 s)),
                      w_timeout = t\<rparr>"
    by (auto simp: waitWork_def Let_def)
  show ?thesis
    using s l unfolding r1 [symmetric] by (simp add: wk)
qed

lemma waitWork_same_plugins:
  assumes "waitWork s min_pkt_cnt ws r = Inr (wk, r')"
  shows "same_plugins r r'"
proof -
  from assms obtain t where
    "waitWork_loop s (clamp_min min_pkt_cnt (buffer_count (r ! s))) False ws r = Inr (t, r')"
    using waitWork_Inr by blast
  then show ?thesis by (rule waitWork_loop_same_plugins)
qed

lemma waitWork_loop_timeout: "waitWork_loop s m True ws r = Inr (True, r)"
  by (cases ws) (simp_all add: must_wait_def)

lemma head_count_nat:
  fixes first cnt B mn :: size_t
  assumes f: "first < B" and c: "cnt \<le> B" and B: "unat B \<le> 2 ^ 63"
  shows "unat (if first + clamp_min mn B \<le> B then min cnt (B - first) else cnt) =
         (if unat first + unat mn \<le> unat B then min (unat cnt) (unat B - unat first) else unat cnt)"
proof -
  have fn: "unat first < unat B" using f by (simp add: word_less_nat_alt)
  have cn: "unat cnt \<le> unat B" using c by (simp add: word_le_nat_alt)
  have sub: "unat (B - first) = unat B - unat first"
    using f by (simp add: unat_sub)
  have mn: "unat (min cnt (B - first)) = min (unat cnt) (unat B - unat first)"
    by (simp add: min_def word_le_nat_alt sub)
  show ?thesis
  proof (cases "mn > B")
    case True
    then have m: "clamp_min mn B = B" by (simp add: clamp_min_def)
    from True have gt: "unat B < unat mn" by (simp add: word_less_nat_alt)
    have add: "unat (first + B) = unat first + unat B"
      using fn B by (intro unat_add_lem [THEN iffD1]) simp
    have "(first + B \<le> B) = (unat first = 0)"
      by (simp add: word_le_nat_alt add)
    with gt fn cn mn show ?thesis
      by (auto simp: m)
  next
    case False
    then have m: "clamp_min mn B = mn" by (simp add: clamp_min_def)
    from False have "mn \<le> B" by simp
    then have le: "unat mn \<le> unat B" by (simp add: word_le_nat_alt)
    have add: "unat (first + mn) = unat first + unat mn"
      using fn le B by (intro unat_add_lem [THEN iffD1]) simp
    have "(first + mn \<le> B) = (unat first + unat mn \<le> unat B)"
      by (simp add: word_le_nat_alt add)
    with mn show ?thesis by (simp add: m)
  qed
qed

lemma ring3:
  "initial_ring 8 3 (0::int) (0::nat) =
    [\<lparr>plugin_type = INPUT, buffer_count = 8, pkt_first = 0, pkt_cnt = 8,
      input_end = False, tsp_aborting = False, bitrate = 0, br_confidence = 0,
      tsp_bitrate = 0, tsp_bitrate_confidence = 0, tsp_timeout = None\<rparr>,
     \<lparr>plugin_type = PROCESSOR, buffer_count = 8, pkt_first = 0, pkt_cnt = 0,
      input_end = False, tsp_aborting = False, bitrate = 0, br_confidence = 0,
      tsp_bitrate = 0, tsp_bitrate_confidence = 0, tsp_timeout = None\<rparr>,
     \<lparr>plugin_type = OUTPUT, buffer_count = 8, pkt_first = 0, pkt_cnt = 0,
      input_end = False, tsp_aborting = False, bitrate = 0, br_confidence = 0,
      tsp_bitrate = 0, tsp_bitrate_confidence = 0, tsp_timeout = None\<rparr>]"
  by (simp add: initial_ring_def plugin_chain_def new_executor_def initBuffer_def upt_rec)

lemma succ_mod_inj:
  fixes n :: nat
  assumes "k < n" and "i < n" and "(k + 1) mod n = (i + 1) mod n"
  shows "k = i"
proof -
  have "(k + 1) mod n = (if k + 1 = n then 0 else k + 1)"
    "(i + 1) mod n = (if i + 1 = n then 0 else i + 1)"
    using assms(1,2) by auto
  with assms show ?thesis
    by (auto split: if_splits)
qed

lemma chain_step:
  fixes F C :: "nat \<Rightarrow> nat"
  assumes n: "2 \<le> n" and i: "i < n"
    and inv: "\<forall>k<n. (F ((k + 1) mod n) + C ((k + 1) mod n)) mod b = F k"
    and c: "c \<le> C i"
    and F': "\<forall>k<n. F' k = (if k = i then (F i + c) mod b else F k)"
    and C': "\<forall>k<n. C' k = (if k = i then C i - c else if k = (i + 1) mod n then C k + c else C k)"
    and k: "k < n"
  shows "(F' ((k + 1) mod n) + C' ((k + 1) mod n)) mod b = F' k"
proof -
  let ?j = "(i + 1) mod n"
  have jn: "?j < n" and kn: "(k + 1) mod n < n" using i by simp_all
  have ji: "?j \<noteq> i" using n i by (auto simp: mod_Suc split: if_splits)
  show ?thesis
  proof (cases "k = i")
    case True
    have "(F ?j + (C ?j + c)) mod b = ((F ?j + C ?j) mod b + c) mod b"
      by (simp add: mod_add_left_eq add.assoc)
    also have "\<dots> = (F i + c) mod b" using inv i by simp
    finally show ?thesis using True F' C' jn ji i by simp
  next
    case False
    then have nj: "(k + 1) mod n \<noteq> ?j" using succ_mod_inj [OF k i] by blast
    show ?thesis
    proof (cases "(k + 1) mod n = i")
      case True
      have "((F i + c) mod b + (C i - c)) mod b = (F i + c + (C i - c)) mod b"
        by (simp add: mod_add_left_eq)
      also have "\<dots> = (F i + C i) mod b" using c by simp
      also have "\<dots> = F k" using inv k True by auto
      finally show ?thesis using True F' C' i k \<open>k \<noteq> i\<close> by simp
    next
      case False
      then show ?thesis using F' C' kn k nj \<open>k \<noteq> i\<close> inv by simp
    qed
  qed
qed

lemma sum_step:
  fixes C :: "nat \<Rightarrow> nat"
  assumes i: "i < n" and j: "j < n" and ij: "i \<noteq> j" and c: "c \<le> C i"
    and C': "\<forall>k<n. C' k = (if k = i then C i - c else if k = j then C k + c else C k)"
  shows "(\<Sum>k = 0..<n. C' k) = (\<Sum>k = 0..<n. C k)"
proof -
  have "(\<Sum>k = 0..<n. C' k + (if k = i then c else 0)) = (\<Sum>k = 0..<n. C k + (if k = j then c else 0))"
    using C' c ij by (intro sum.cong) auto
  then have "(\<Sum>k = 0..<n. C' k) + (\<Sum>k = 0..<n. if k = i then c else 0)
      = (\<Sum>k = 0..<n. C k) + (\<Sum>k = 0..<n. if k = j then c else 0)"
    by (simp add: sum.distrib)
  then show ?thesis using i j by simp
qed

lemma two_le_sum:
  fixes C :: "nat \<Rightarrow> nat"
  assumes "i < n" and "j < n" and "i \<noteq> j"
  shows "C i + C j \<le> (\<Sum>k = 0..<n. C k)"
proof -
  have "(\<Sum>k\<in>{i, j}. C k) \<le> (\<Sum>k = 0..<n. C k)"
    using assms by (intro sum_mono2) auto
  with assms(3) show ?thesis by simp
qed


lemma count_sum_nth: "count_sum r = (\<Sum>k = 0..<length r. unat (pkt_cnt (r ! k)))"
  by (simp add: count_sum_def sum_list_sum_nth)

lemma passPackets_windows:
  assumes p: "passPackets s count br conf inp_end aborted r = Inr (continue, woken, r')"
    and n: "1 < length r" and k: "k < length r"
  shows "s < length r" and "count \<le> pkt_cnt (r ! s)" and "buffer_count (r ! s) \<noteq> 0"
    and "length r' = length r"
    and "pkt_first (r' ! k) =
          (if k = s then (pkt_first (r ! s) + count) mod buffer_count (r ! s) else pkt_first (r ! k))"
    and "pkt_cnt (r' ! k) =
          (if k = s then pkt_cnt (r ! s) - count
           else if k = ringNext r s then pkt_cnt (r ! k) + count else pkt_cnt (r ! k))"
proof -
  from p show s: "s < length r" and c: "count \<le> pkt_cnt (r ! s)" and b: "buffer_count (r ! s) \<noteq> 0"
    by (auto simp: passPackets_def split: if_splits)
  from s have nx: "ringNext r s < length r" by (rule ringNext_less)
  from s n have ne: "ringNext r s \<noteq> s" by (rule ringNext_neq)
  from p s c b nx ne k show "length r' = length r"
    and "pkt_first (r' ! k) =
          (if k = s then (pkt_first (r ! s) + count) mod buffer_count (r ! s) else pkt_first (r ! k))"
    and "pkt_cnt (r' ! k) =
          (if k = s then pkt_cnt (r ! s) - count
           else if k = ringNext r s then pkt_cnt (r ! k) + count else pkt_cnt (r ! k))"
    by (auto simp: passPackets_def Let_def nth_list_update split: if_splits)
qed

lemma passPackets_ring_inv:
  assumes inv: "ring_inv B n r" and n: "2 \<le> n" and B: "unat B \<le> 2 ^ 63"
    and p: "passPackets s count br conf inp_end aborted r = Inr (continue, woken, r')"
  shows "ring_inv B n r'"
proof -
  let ?F = "\<lambda>k. unat (pkt_first (r ! k))" and ?C = "\<lambda>k. unat (pkt_cnt (r ! k))"
  let ?F' = "\<lambda>k. unat (pkt_first (r' ! k))" and ?C' = "\<lambda>k. unat (pkt_cnt (r' ! k))"
  let ?j = "ringNext r s"
  from inv have len: "length r = n" by (simp add: ring_inv_def)
  with n have n1: "1 < length r" by simp
  from inv have bc: "\<And>k. k < n \<Longrightarrow> buffer_count (r ! k) = B"
    and fb: "\<And>k. k < n \<Longrightarrow> pkt_first (r ! k) < B"
    and sm: "(\<Sum>k = 0..<n. ?C k) = unat B"
    and ch: "\<And>k. k < n \<Longrightarrow> (?F ((k + 1) mod n) + ?C ((k + 1) mod n)) mod unat B = ?F k"
    by (auto simp: ring_inv_def count_sum_nth next_precedes_def window_end_def ringNext_def)
  have s: "s < n" and c: "count \<le> pkt_cnt (r ! s)" and len': "length r' = n"
    using passPackets_windows [OF p n1, of 0] n1 len by simp_all
  have j: "?j < n" "?j \<noteq> s" "?j = (s + 1) mod n"
    using s n len ringNext_less [of s r] ringNext_neq [of s r] by (simp_all add: ringNext_def)
  have B0: "0 < unat B" using fb [OF s] by (simp add: word_less_nat_alt)
  have cn: "unat count \<le> ?C s" using c by (simp add: word_le_nat_alt)
  have two: "?C s + ?C ?j \<le> unat B"
    using two_le_sum [of s n ?j ?C] s j sm by simp
  have Fs: "?F s < unat B" using fb [OF s] by (simp add: word_less_nat_alt)
  have Cs: "?C s \<le> unat B" using two by simp
  have w1: "unat (pkt_first (r ! s) + count) = ?F s + unat count"
    using Fs Cs cn B by (intro unat_add_lem [THEN iffD1]) simp
  have w2: "unat (pkt_cnt (r ! ?j) + count) = ?C ?j + unat count"
    using two cn B by (intro unat_add_lem [THEN iffD1]) simp
  have w3: "unat (pkt_cnt (r ! s) - count) = ?C s - unat count"
    using c by (simp add: unat_sub)
  have F': "\<forall>k<n. ?F' k = (if k = s then (?F s + unat count) mod unat B else ?F k)"
    using passPackets_windows(5) [OF p n1] len bc [OF s] w1 by (simp add: unat_mod)
  have C'j: "\<forall>k<n. ?C' k = (if k = s then ?C s - unat count
                          else if k = ?j then ?C k + unat count else ?C k)"
    using passPackets_windows(6) [OF p n1] len w2 w3 by simp
  have C': "\<forall>k<n. ?C' k = (if k = s then ?C s - unat count
                          else if k = (s + 1) mod n then ?C k + unat count else ?C k)"
    using C'j unfolding j(3) .
  have "\<forall>k<n. (?F' ((k + 1) mod n) + ?C' ((k + 1) mod n)) mod unat B = ?F' k"
    using chain_step [where F = ?F and C = ?C and F' = ?F' and C' = ?C' and i = s
        and c = "unat count" and n = n and b = "unat B", OF n s _ cn F' C'] ch by blast
  moreover have "(\<Sum>k = 0..<n. ?C' k) = unat B"
  proof -
    have sj: "s \<noteq> ?j" using j(2) by simp
    have "(\<Sum>k = 0..<n. ?C' k) = (\<Sum>k = 0..<n. ?C k)"
      by (rule sum_step [where C = ?C and C' = ?C' and i = s and j = ?j and c = "unat count" and n = n,
            OF s j(1) sj cn C'j])
    with sm show ?thesis by simp
  qed
  moreover have "\<forall>k<n. buffer_count (r' ! k) = B"
    using passPackets_same_plugins [OF p] bc len by (simp add: same_plugins_def)
  moreover have "\<forall>k<n. pkt_first (r' ! k) < B"
  proof (intro allI impI)
    fix k assume k: "k < n"
    have "?F' k < unat B" using F' k fb [OF k] B0 by (simp add: word_less_nat_alt)
    then show "pkt_first (r' ! k) < B" by (simp add: word_less_nat_alt)
  qed
  ultimately show ?thesis
    using len' by (simp add: ring_inv_def count_sum_nth next_precedes_def window_end_def ringNext_def)
qed


lemma length_chain: "2 \<le> n \<Longrightarrow> length (plugin_chain n) = n"
  by (simp add: plugin_chain_def)

lemma fold_initBuffer:
  assumes "m \<le> length r"
  shows "length (fold (\<lambda>k. initBuffer k B f (g k) ie ab br conf) [0..<m] r) = length r
    \<and> (\<forall>j<length r. fold (\<lambda>k. initBuffer k B f (g k) ie ab br conf) [0..<m] r ! j
          = (if j < m then (r ! j)\<lparr>buffer_count := B, pkt_first := f, pkt_cnt := g j,
                     input_end := ie, tsp_aborting := ab,
                     bitrate := br, br_confidence := conf,
                     tsp_bitrate := br, tsp_bitrate_confidence := conf\<rparr>
             else r ! j))"
  using assms
proof (induction m)
  case 0
  then show ?case by simp
next
  case (Suc m)
  then show ?case
    by (auto simp: initBuffer_def nth_list_update)
qed

lemma initial_ring_windows:
  assumes n: "2 \<le> n"
  shows "length (initial_ring B n br conf) = n"
    and "\<And>k. k < n \<Longrightarrow> buffer_count (initial_ring B n br conf ! k) = B"
    and "\<And>k. k < n \<Longrightarrow> pkt_first (initial_ring B n br conf ! k) = 0"
    and "\<And>k. k < n \<Longrightarrow> pkt_cnt (initial_ring B n br conf ! k) = (if k = 0 then B else 0)"
  using fold_initBuffer [of "length (plugin_chain n)" "map (new_executor br conf) (plugin_chain n)" B 0
      "\<lambda>k. if k = 0 then B else 0" False False br conf] n
  by (simp_all add: initial_ring_def length_chain)

lemma initial_ring_inv:
  assumes n: "2 \<le> n" and B: "B \<noteq> 0"
  shows "ring_inv B n (initial_ring B n br conf)"
proof -
  let ?r = "initial_ring B n br conf"
  note w = initial_ring_windows [OF n, where B = B and br = br and conf = conf]
  have nx: "ringNext ?r k < n" if "k < n" for k
    using that ringNext_less [of k ?r] w(1) by simp
  have "count_sum ?r = (\<Sum>k = 0..<n. if k = 0 then unat B else 0)"
    unfolding count_sum_nth w(1) by (rule sum.cong) (simp_all add: w(4))
  also have "\<dots> = unat B" using n by simp
  finally have "count_sum ?r = unat B" .
  moreover have "next_precedes B ?r k" if "k < n" for k
    using that nx [OF that] by (simp add: next_precedes_def window_end_def w)
  moreover have "pkt_first (?r ! k) < B" if "k < n" for k
    using that B by (simp add: w word_greater_zero_iff)
  ultimately show ?thesis
    by (simp add: ring_inv_def w)
qed

lemma reachable_ring_inv:
  assumes "reachable B n br0 conf0 r" and "2 \<le> n" and "B \<noteq> 0" and "unat B \<le> 2 ^ 63"
  shows "ring_inv B n r"
  using assms
proof (induction rule: reachable.induct)
  case reachable_init
  then show ?case by (simp add: initial_ring_inv)
next
  case (reachable_pass r s count br conf inp_end aborted continue woken r')
  then show ?case
    using passPackets_ring_inv [of B n r s count br conf inp_end aborted continue woken r'] by simp
qed

lemma wrapped_ring_reached:
  "run_calls [PassPackets 0 8 0 0 False False, PassPackets 1 6 0 0 False False,
              PassPackets 2 6 0 0 False False, PassPackets 0 2 0 0 False False]
     (initial_ring 8 3 (0::int) (0::nat)) = Inr (wrapped_ring False None)"
  by (simp add: ring3 passPackets_def ringNext_def ringPrevious_def Let_def wrapped_ring_def)

text \<open>
  C1. For a call \<open>passPackets(count, bitrate, conf, input_end, aborted)\<close> of the executor
  \<open>s\<close> of a ring of at least two executors, with \<open>count \<le> s.count\<close> and a buffer that is
  not empty: \<open>s.first\<close> becomes \<open>(s.first + count) mod B\<close>, \<open>s.count\<close> decreases by
  \<open>count\<close>, the count of the next executor increases by \<open>count\<close>, its bitrate and
  confidence are overwritten, \<open>input_end\<close> is OR-ed into its flag, and the call returns
  true exactly when \<open>input_end\<close> is false and the effective abort flag is false: the passed
  one, OR-ed with the next executor's \<open>aborting\<close> when \<open>s\<close> is not the output.
\<close>

theorem passPackets_effect:
  assumes "s < length r" and "1 < length r"
    and "count \<le> pkt_cnt (r ! s)" and "buffer_count (r ! s) \<noteq> 0"
  shows "\<exists>woken r'.
      passPackets s count br conf inp_end aborted r =
        Inr (\<not> inp_end \<and> \<not> (aborted \<or> (plugin_type (r ! s) \<noteq> OUTPUT \<and> tsp_aborting (r ! ringNext r s))),
             woken, r')
      \<and> length r' = length r
      \<and> pkt_first (r' ! s) = (pkt_first (r ! s) + count) mod buffer_count (r ! s)
      \<and> pkt_cnt (r' ! s) = pkt_cnt (r ! s) - count
      \<and> pkt_cnt (r' ! ringNext r s) = pkt_cnt (r ! ringNext r s) + count
      \<and> bitrate (r' ! ringNext r s) = br
      \<and> br_confidence (r' ! ringNext r s) = conf
      \<and> input_end (r' ! ringNext r s) = (input_end (r ! ringNext r s) \<or> inp_end)"
proof -
  have n: "ringNext r s < length r"
    using assms(1) by (rule ringNext_less)
  have ne: "ringNext r s \<noteq> s"
    using assms(1,2) by (rule ringNext_neq)
  show ?thesis
    using assms n ne by (simp add: passPackets_def Let_def)
qed



theorem passPackets_effect_witness:
  "\<exists>woken r'. passPackets 0 3 (5::int) (1::nat) False False (initial_ring 8 3 0 0) = Inr (True, woken, r')
     \<and> pkt_first (r' ! 0) = 3 \<and> pkt_cnt (r' ! 0) = 5 \<and> pkt_cnt (r' ! 1) = 3
     \<and> bitrate (r' ! 1) = 5 \<and> br_confidence (r' ! 1) = 1 \<and> \<not> input_end (r' ! 1)"
  using passPackets_effect [of 0 "initial_ring 8 3 (0::int) (0::nat)" 3 5 1 False False]
  by (auto simp: ring3 ringNext_def)

text \<open>
  C2, as claimed: in every state reached from the initial one by calls of \<open>passPackets\<close>,
  the counts add up to \<open>B\<close> and the window of every executor \<open>s\<close> ends where the window
  of \<open>next(s)\<close> starts. The second part fails after the first call: the input of a ring of
  three executors on a buffer of 8 packets passes 3 packets; the window of the packet
  processor is then the slots 0 to 2 and ends at slot 3, and the window of the output
  still starts at slot 0.
\<close>

theorem windows_counterexample:
  "map_sum id (\<lambda>r. (count_sum r, map (next_follows 8 r) [0, 1, 2]))
      (run_call (PassPackets 0 3 0 0 False False) (initial_ring 8 3 (0::int) (0::nat)))
    = Inr (8, [True, False, False])"
  by (simp add: ring3 passPackets_def ringNext_def ringPrevious_def Let_def count_sum_def
      next_follows_def window_end_def)

text \<open>
  C2, amended: in every state reached from the initial one by calls of \<open>passPackets\<close>, in
  a ring of at least two executors on a buffer of 1 to \<open>2^63\<close> packets, the counts add up
  to \<open>B\<close> and, for every executor \<open>s\<close>, the window of \<open>next(s)\<close> ends where the window
  of \<open>s\<close> starts: \<open>(next(s).first + next(s).count) mod B = s.first\<close>. The packets that
  \<open>s\<close> passes leave the head of its window and join the tail of the next one.
\<close>

theorem windows_invariant:
  assumes "reachable B n br0 conf0 r" and "2 \<le> n" and "B \<noteq> 0" and "unat B \<le> 2 ^ 63"
  shows "count_sum r = unat B \<and> (\<forall>s<length r. next_precedes B r s)"
  using reachable_ring_inv [OF assms] by (simp add: ring_inv_def)

theorem windows_invariant_witness:
  "\<exists>r. run_call (PassPackets 0 3 0 0 False False) (initial_ring 8 3 (0::int) (0::nat)) = Inr r
     \<and> reachable 8 3 0 0 r \<and> map pkt_first r = [3, 0, 0] \<and> map pkt_cnt r = [5, 3, 0]
     \<and> count_sum r = 8 \<and> next_precedes 8 r 0 \<and> next_precedes 8 r 1 \<and> next_precedes 8 r 2"
proof -
  let ?r0 = "initial_ring 8 3 (0::int) (0::nat)"
  obtain c w r1 where p: "passPackets 0 3 0 0 False False ?r0 = Inr (c, w, r1)"
    and vals: "map pkt_first r1 = [3, 0, 0]" "map pkt_cnt r1 = [5, 3, 0]" and len: "length r1 = 3"
    by (simp add: ring3 passPackets_def ringNext_def ringPrevious_def Let_def)
  have "reachable 8 3 0 0 ?r0" by (rule reachable_init)
  then have re: "reachable 8 3 0 0 r1" using p by (rule reachable_pass)
  from windows_invariant [OF re] len have "count_sum r1 = 8 \<and> (\<forall>s<3. next_precedes 8 r1 s)"
    by simp
  then show ?thesis using p re vals by auto
qed

text \<open>
  C3. The flags \<open>input_end\<close> and \<open>aborting\<close> of every executor are monotonic: whatever
  \<open>passPackets\<close>, \<open>setAbort\<close> and \<open>waitWork\<close> (with the calls of the other threads during
  its waits) return, a flag that was true before the call is true after it.
\<close>

theorem flags_monotonic:
  "(passPackets s count br conf inp_end aborted r = Inr (continue, woken, r') \<longrightarrow> flags_kept r r')
   \<and> (setAbort s r = Inr (woken, r') \<longrightarrow> flags_kept r r')
   \<and> (waitWork s min_pkt_cnt ws r = Inr (wk, r') \<longrightarrow> flags_kept r r')"
proof (intro conjI impI)
  assume "passPackets s count br conf inp_end aborted r = Inr (continue, woken, r')"
  then show "flags_kept r r'" by (rule passPackets_flags_kept)
next
  assume "setAbort s r = Inr (woken, r')"
  then show "flags_kept r r'" by (rule setAbort_flags_kept)
next
  assume "waitWork s min_pkt_cnt ws r = Inr (wk, r')"
  then obtain t where
    "waitWork_loop s (clamp_min min_pkt_cnt (buffer_count (r ! s))) False ws r = Inr (t, r')"
    using waitWork_Inr by blast
  then show "flags_kept r r'" by (rule waitWork_loop_flags_kept)
qed

theorem flags_monotonic_witness:
  "(\<exists>continue woken r'.
      passPackets 1 2 (5::int) (1::nat) True True (wrapped_ring True None) = Inr (continue, woken, r')
      \<and> flags_kept (wrapped_ring True None) r' \<and> input_end (r' ! 1) \<and> input_end (r' ! 2))
   \<and> (\<exists>woken r'. setAbort 1 (wrapped_ring True None) = Inr (woken, r')
      \<and> flags_kept (wrapped_ring True None) r' \<and> input_end (r' ! 1))
   \<and> (\<exists>wk r'. waitWork 2 1 [\<lparr>others = [SetAbort 1, PassPackets 1 2 5 1 False False],
                                 timed_out = False, handler_continue = False\<rparr>]
                  (wrapped_ring True None) = Inr (wk, r')
      \<and> flags_kept (wrapped_ring True None) r' \<and> input_end (r' ! 1) \<and> tsp_aborting (r' ! 1))"
proof -
  let ?r = "wrapped_ring True None"
  obtain c1 w1 r1 where p: "passPackets 1 2 (5::int) (1::nat) True True ?r = Inr (c1, w1, r1)"
    and p1: "input_end (r1 ! 1)" "input_end (r1 ! 2)"
    by (auto simp: passPackets_def wrapped_ring_def ringNext_def ringPrevious_def Let_def)
  obtain w2 r2 where a: "setAbort 1 ?r = Inr (w2, r2)" and a1: "input_end (r2 ! 1)"
    by (simp add: setAbort_def wrapped_ring_def ringPrevious_def)
  obtain wk r3 where w: "waitWork 2 1 [\<lparr>others = [SetAbort 1, PassPackets 1 2 5 1 False False],
        timed_out = False, handler_continue = False\<rparr>] ?r = Inr (wk, r3)"
    and w1: "input_end (r3 ! 1)" "tsp_aborting (r3 ! 1)"
    by (simp add: waitWork_def clamp_min_def must_wait_def passPackets_def setAbort_def
        wrapped_ring_def ringNext_def ringPrevious_def Let_def)
  from flags_monotonic [THEN conjunct1, rule_format, OF p]
    flags_monotonic [THEN conjunct2, THEN conjunct1, rule_format, OF a]
    flags_monotonic [THEN conjunct2, THEN conjunct2, rule_format, OF w]
    p p1 a a1 w w1
  show ?thesis by blast
qed

text \<open>
  C4. When \<open>waitWork\<close> returns without timeout: if \<open>pkt_first + min_pkt_cnt \<le> B\<close>, with
  the minimum as \<open>waitWork\<close> has cut it to the size \<open>B\<close> of the buffer and the sum of
  \<open>size_t\<close>, the returned \<open>pkt_cnt\<close> is \<open>min(count, B - pkt_first)\<close>, the contiguous head
  of the window up to the end of the buffer; otherwise it is the whole count of the window.
  When the window starts inside of a buffer of at most \<open>2^63\<close> packets and does not hold
  more than the buffer, as in every state of the pipeline, the same is true of the numbers
  themselves and of the minimum as the caller gave it.
\<close>

theorem waitWork_pkt_cnt:
  assumes "waitWork s min_pkt_cnt ws r = Inr (wk, r')" and "\<not> w_timeout wk"
  shows "buffer_count (r' ! s) = buffer_count (r ! s)
    \<and> w_pkt_cnt wk =
        (if pkt_first (r' ! s) + clamp_min min_pkt_cnt (buffer_count (r' ! s)) \<le> buffer_count (r' ! s)
         then min (pkt_cnt (r' ! s)) (buffer_count (r' ! s) - pkt_first (r' ! s))
         else pkt_cnt (r' ! s))
    \<and> (pkt_first (r' ! s) < buffer_count (r' ! s) \<and> pkt_cnt (r' ! s) \<le> buffer_count (r' ! s)
          \<and> unat (buffer_count (r' ! s)) \<le> 2 ^ 63
        \<longrightarrow> unat (w_pkt_cnt wk) =
              (if unat (pkt_first (r' ! s)) + unat min_pkt_cnt \<le> unat (buffer_count (r' ! s))
               then min (unat (pkt_cnt (r' ! s)))
                        (unat (buffer_count (r' ! s)) - unat (pkt_first (r' ! s)))
               else unat (pkt_cnt (r' ! s))))"
proof -
  from assms(1) have s: "s < length r" using waitWork_Inr by blast
  from assms(1) have "same_plugins r r'" by (rule waitWork_same_plugins)
  with s have b: "buffer_count (r' ! s) = buffer_count (r ! s)"
    by (simp add: same_plugins_def)
  from waitWork_Inr [OF assms(1)] assms(2) b
  have c: "w_pkt_cnt wk =
        (if pkt_first (r' ! s) + clamp_min min_pkt_cnt (buffer_count (r' ! s)) \<le> buffer_count (r' ! s)
         then min (pkt_cnt (r' ! s)) (buffer_count (r' ! s) - pkt_first (r' ! s))
         else pkt_cnt (r' ! s))"
    by auto
  have "unat (w_pkt_cnt wk) =
              (if unat (pkt_first (r' ! s)) + unat min_pkt_cnt \<le> unat (buffer_count (r' ! s))
               then min (unat (pkt_cnt (r' ! s)))
                        (unat (buffer_count (r' ! s)) - unat (pkt_first (r' ! s)))
               else unat (pkt_cnt (r' ! s)))"
    if "pkt_first (r' ! s) < buffer_count (r' ! s)" and "pkt_cnt (r' ! s) \<le> buffer_count (r' ! s)"
      and "unat (buffer_count (r' ! s)) \<le> 2 ^ 63"
    unfolding c using that by (rule head_count_nat)
  with b c show ?thesis by blast
qed

theorem waitWork_pkt_cnt_witness:
  "(\<exists>wk r'. waitWork 1 1 [] (wrapped_ring False None) = Inr (wk, r')
        \<and> \<not> w_timeout wk \<and> w_pkt_first wk = 6 \<and> w_pkt_cnt wk = 2 \<and> unat (w_pkt_cnt wk) = 2)
   \<and> (\<exists>wk r'. waitWork 1 3 [] (wrapped_ring False None) = Inr (wk, r')
        \<and> \<not> w_timeout wk \<and> w_pkt_first wk = 6 \<and> w_pkt_cnt wk = 4 \<and> unat (w_pkt_cnt wk) = 4)"
proof -
  let ?r = "wrapped_ring False None"
  obtain wk1 r1 where e1: "waitWork 1 1 [] ?r = Inr (wk1, r1)"
    and t1: "\<not> w_timeout wk1" and f1: "w_pkt_first wk1 = 6" and r1: "r1 = ?r"
    by (simp add: waitWork_def clamp_min_def must_wait_def wrapped_ring_def ringNext_def Let_def)
  obtain wk2 r2 where e2: "waitWork 1 3 [] ?r = Inr (wk2, r2)"
    and t2: "\<not> w_timeout wk2" and f2: "w_pkt_first wk2 = 6" and r2: "r2 = ?r"
    by (simp add: waitWork_def clamp_min_def must_wait_def wrapped_ring_def ringNext_def Let_def)
  from waitWork_pkt_cnt [OF e1 t1] have "w_pkt_cnt wk1 = 2 \<and> unat (w_pkt_cnt wk1) = 2"
    by (simp add: r1 wrapped_ring_def clamp_min_def)
  moreover from waitWork_pkt_cnt [OF e2 t2] have "w_pkt_cnt wk2 = 4 \<and> unat (w_pkt_cnt wk2) = 4"
    by (simp add: r2 wrapped_ring_def clamp_min_def)
  ultimately show ?thesis using e1 t1 f1 e2 t2 f2 by blast
qed

text \<open>
  C5. An executor with a finite packet timeout whose wait in \<open>waitWork\<close> ends by timeout:
  when the plugin's \<open>handlePacketTimeout\<close> answers true, the loop goes on as a call of
  \<open>waitWork\<close> in the state at that moment does, so the executor waits again unless that
  state ends the loop; when it answers false, \<open>waitWork\<close> returns \<open>timeout = true\<close> and
  \<open>pkt_cnt = 0\<close>.
\<close>

theorem waitWork_timeout:
  assumes "s < length r" and "tsp_timeout (r ! s) \<noteq> None"
    and "must_wait s (clamp_min min_pkt_cnt (buffer_count (r ! s))) False r"
    and "run_calls (others w) r = Inr r1" and "timed_out w"
  shows "(handler_continue w \<longrightarrow>
            waitWork s min_pkt_cnt (w # ws) r = waitWork s min_pkt_cnt ws r1)
    \<and> (\<not> handler_continue w \<longrightarrow>
          (\<exists>wk. waitWork s min_pkt_cnt (w # ws) r = Inr (wk, r1)
                \<and> w_timeout wk \<and> w_pkt_cnt wk = 0))"
proof -
  let ?m = "clamp_min min_pkt_cnt (buffer_count (r ! s))"
  from assms(4) have sp: "same_plugins r r1" by (rule run_calls_same_plugins)
  with assms(1) have s1: "s < length r1" and b: "buffer_count (r1 ! s) = buffer_count (r ! s)"
    by (simp_all add: same_plugins_def)
  have step: "waitWork_loop s ?m False (w # ws) r
      = waitWork_loop s ?m (timed_out w \<and> \<not> handler_continue w) ws r1"
    using assms(2,3,4) by auto
  have "waitWork s min_pkt_cnt (w # ws) r = waitWork s min_pkt_cnt ws r1" if "handler_continue w"
    using that step assms(1) s1 b by (simp add: waitWork_def)
  moreover have "\<exists>wk. waitWork s min_pkt_cnt (w # ws) r = Inr (wk, r1)
                \<and> w_timeout wk \<and> w_pkt_cnt wk = 0" if "\<not> handler_continue w"
  proof -
    from that step assms(5) have "waitWork_loop s ?m False (w # ws) r = Inr (True, r1)"
      by (simp add: waitWork_loop_timeout)
    with assms(1) show ?thesis
      by (simp add: waitWork_def Let_def)
  qed
  ultimately show ?thesis by blast
qed

theorem waitWork_timeout_witness:
  "waitWork 1 5 [\<lparr>others = [], timed_out = True, handler_continue = True\<rparr>]
       (wrapped_ring False (Some 1000)) = Inl WaitsForever
   \<and> (\<exists>wk r'. waitWork 1 5 [\<lparr>others = [], timed_out = True, handler_continue = False\<rparr>]
       (wrapped_ring False (Some 1000)) = Inr (wk, r') \<and> w_timeout wk \<and> w_pkt_cnt wk = 0)"
proof -
  let ?r = "wrapped_ring False (Some 1000)"
  have s: "1 < length ?r" and t: "tsp_timeout (?r ! 1) \<noteq> None"
    and m: "must_wait 1 (clamp_min 5 (buffer_count (?r ! 1))) False ?r"
    by (simp_all add: wrapped_ring_def clamp_min_def must_wait_def ringNext_def)
  have e: "waitWork 1 5 [] ?r = Inl WaitsForever"
    by (simp add: waitWork_def clamp_min_def must_wait_def wrapped_ring_def ringNext_def)
  from waitWork_timeout [of 1 ?r 5 "\<lparr>others = [], timed_out = True, handler_continue = True\<rparr>" ?r "[]", OF s t m]
    waitWork_timeout [of 1 ?r 5 "\<lparr>others = [], timed_out = True, handler_continue = False\<rparr>" ?r "[]", OF s t m]
    e
  show ?thesis by auto
qed

text \<open>
  C6. The edge from the output to the input is the only one where \<open>input_end\<close> and
  \<open>aborting\<close> do not propagate through \<open>passPackets\<close>. When the output calls it, as the
  output does, the flags \<open>input_end\<close> and \<open>aborting\<close> of the input stay as they are, and
  the \<open>aborting\<close> of the input is not OR-ed into the abort flag: the call returns true
  unless the output itself aborts. When any other executor calls it, the passed
  \<open>input_end\<close> is OR-ed into the flag of the next executor and the \<open>aborting\<close> of the
  next executor is OR-ed into the abort flag, which decides the returned value and becomes
  the caller's own \<open>aborting\<close>. \<open>waitWork\<close> returns \<open>aborted\<close> as \<open>next(s).aborting\<close> for
  every executor but the output, and false for the output. (\<open>passPackets\<close> itself guards
  only the abort flag by the type of the plugin; that no end of input crosses this edge
  is due to the \<open>false\<close> that the output passes.)
\<close>

theorem output_edge:
  "(plugin_type (r ! s) = OUTPUT \<and> 1 < length r
      \<and> output_passPackets s count br conf send_failed r = Inr (continue, woken, r')
     \<longrightarrow> input_end (r' ! ringNext r s) = input_end (r ! ringNext r s)
       \<and> tsp_aborting (r' ! ringNext r s) = tsp_aborting (r ! ringNext r s)
       \<and> continue = (\<not> send_failed)
       \<and> tsp_aborting (r' ! s) = (tsp_aborting (r ! s) \<or> send_failed))
   \<and> (plugin_type (r ! s) \<noteq> OUTPUT \<and> 1 < length r
      \<and> passPackets s count br conf inp_end aborted r = Inr (continue, woken, r')
     \<longrightarrow> input_end (r' ! ringNext r s) = (input_end (r ! ringNext r s) \<or> inp_end)
       \<and> tsp_aborting (r' ! ringNext r s) = tsp_aborting (r ! ringNext r s)
       \<and> continue = (\<not> inp_end \<and> \<not> (aborted \<or> tsp_aborting (r ! ringNext r s)))
       \<and> tsp_aborting (r' ! s) =
           (tsp_aborting (r ! s) \<or> aborted \<or> tsp_aborting (r ! ringNext r s)))
   \<and> (waitWork s min_pkt_cnt ws r = Inr (wk, r')
     \<longrightarrow> w_aborted wk =
           (if plugin_type (r ! s) = OUTPUT then False else tsp_aborting (r' ! ringNext r' s)))"
proof (intro conjI impI)
  assume a: "plugin_type (r ! s) = OUTPUT \<and> 1 < length r
      \<and> output_passPackets s count br conf send_failed r = Inr (continue, woken, r')"
  then have s: "s < length r" by (simp add: output_passPackets_def passPackets_def split: if_splits)
  then have n: "ringNext r s < length r" by (rule ringNext_less)
  have ne: "ringNext r s \<noteq> s" using s a by (intro ringNext_neq) simp_all
  from a s n ne show
    "input_end (r' ! ringNext r s) = input_end (r ! ringNext r s)"
    "tsp_aborting (r' ! ringNext r s) = tsp_aborting (r ! ringNext r s)"
    "continue = (\<not> send_failed)"
    "tsp_aborting (r' ! s) = (tsp_aborting (r ! s) \<or> send_failed)"
    by (auto simp: output_passPackets_def passPackets_def Let_def split: if_splits)
next
  assume a: "plugin_type (r ! s) \<noteq> OUTPUT \<and> 1 < length r
      \<and> passPackets s count br conf inp_end aborted r = Inr (continue, woken, r')"
  then have s: "s < length r" by (simp add: passPackets_def split: if_splits)
  then have n: "ringNext r s < length r" by (rule ringNext_less)
  have ne: "ringNext r s \<noteq> s" using s a by (intro ringNext_neq) simp_all
  from a s n ne show
    "input_end (r' ! ringNext r s) = (input_end (r ! ringNext r s) \<or> inp_end)"
    "tsp_aborting (r' ! ringNext r s) = tsp_aborting (r ! ringNext r s)"
    "continue = (\<not> inp_end \<and> \<not> (aborted \<or> tsp_aborting (r ! ringNext r s)))"
    "tsp_aborting (r' ! s) = (tsp_aborting (r ! s) \<or> aborted \<or> tsp_aborting (r ! ringNext r s))"
    by (auto simp: passPackets_def Let_def split: if_splits)
next
  assume w: "waitWork s min_pkt_cnt ws r = Inr (wk, r')"
  then have s: "s < length r" using waitWork_Inr by blast
  from w have "same_plugins r r'" by (rule waitWork_same_plugins)
  with s have "plugin_type (r' ! s) = plugin_type (r ! s)" by (simp add: same_plugins_def)
  with waitWork_Inr [OF w]
  show "w_aborted wk =
          (if plugin_type (r ! s) = OUTPUT then False else tsp_aborting (r' ! ringNext r' s))"
    by auto
qed

theorem output_edge_witness:
  "(\<exists>continue woken r'. output_passPackets 2 0 (0::int) (0::nat) False
        ((wrapped_ring False None)[0 := (wrapped_ring False None ! 0)\<lparr>tsp_aborting := True\<rparr>])
        = Inr (continue, woken, r')
        \<and> continue \<and> \<not> tsp_aborting (r' ! 2) \<and> \<not> input_end (r' ! 0) \<and> tsp_aborting (r' ! 0))
   \<and> (\<exists>continue woken r'. passPackets 0 2 (0::int) (0::nat) True False
        ((wrapped_ring False None)[1 := (wrapped_ring False None ! 1)\<lparr>tsp_aborting := True\<rparr>])
        = Inr (continue, woken, r')
        \<and> \<not> continue \<and> tsp_aborting (r' ! 0) \<and> input_end (r' ! 1))
   \<and> (\<exists>wk r'. waitWork 2 0 []
        ((wrapped_ring False None)[0 := (wrapped_ring False None ! 0)\<lparr>tsp_aborting := True\<rparr>])
        = Inr (wk, r') \<and> \<not> w_aborted wk)
   \<and> (\<exists>wk r'. waitWork 0 0 []
        ((wrapped_ring False None)[1 := (wrapped_ring False None ! 1)\<lparr>tsp_aborting := True\<rparr>])
        = Inr (wk, r') \<and> w_aborted wk)"
proof -
  let ?ri = "(wrapped_ring False None)[0 := (wrapped_ring False None ! 0)\<lparr>tsp_aborting := True\<rparr>]"
  let ?rp = "(wrapped_ring False None)[1 := (wrapped_ring False None ! 1)\<lparr>tsp_aborting := True\<rparr>]"
  have facts: "1 < length ?ri" "1 < length ?rp" "ringNext ?ri 2 = 0" "ringNext ?rp 0 = 1"
    "plugin_type (?ri ! 2) = OUTPUT" "plugin_type (?rp ! 0) \<noteq> OUTPUT"
    "tsp_aborting (?ri ! 0)" "tsp_aborting (?rp ! 1)" "\<not> tsp_aborting (?ri ! 2)" "\<not> tsp_aborting (?rp ! 0)"
    "\<not> input_end (?ri ! 0)" "\<not> input_end (?rp ! 1)"
    by (simp_all add: wrapped_ring_def ringNext_def)
  obtain c1 w1 r1 where p1: "output_passPackets 2 0 (0::int) (0::nat) False ?ri = Inr (c1, w1, r1)"
    by (auto simp: output_passPackets_def passPackets_def wrapped_ring_def ringNext_def
        ringPrevious_def Let_def)
  obtain c2 w2 r2 where p2: "passPackets 0 2 (0::int) (0::nat) True False ?rp = Inr (c2, w2, r2)"
    by (auto simp: passPackets_def wrapped_ring_def ringNext_def ringPrevious_def Let_def)
  obtain wk3 r3 where p3: "waitWork 2 0 [] ?ri = Inr (wk3, r3)" and r3: "r3 = ?ri"
    by (auto simp: waitWork_def clamp_min_def must_wait_def wrapped_ring_def ringNext_def Let_def)
  obtain wk4 r4 where p4: "waitWork 0 0 [] ?rp = Inr (wk4, r4)" and r4: "r4 = ?rp"
    by (auto simp: waitWork_def clamp_min_def must_wait_def wrapped_ring_def ringNext_def Let_def)
  have "c1 \<and> \<not> tsp_aborting (r1 ! 2) \<and> \<not> input_end (r1 ! 0) \<and> tsp_aborting (r1 ! 0)"
    using output_edge [THEN conjunct1, rule_format, OF conjI [OF facts(5) conjI [OF facts(1) p1]]]
      facts by simp
  moreover have "\<not> c2 \<and> tsp_aborting (r2 ! 0) \<and> input_end (r2 ! 1)"
    using output_edge [THEN conjunct2, THEN conjunct1, rule_format,
        OF conjI [OF facts(6) conjI [OF facts(2) p2]]] facts by simp
  moreover have "\<not> w_aborted wk3"
    using output_edge [THEN conjunct2, THEN conjunct2, rule_format, OF p3] facts by (simp add: r3)
  moreover have "w_aborted wk4"
    using output_edge [THEN conjunct2, THEN conjunct2, rule_format, OF p4] facts by (simp add: r4)
  ultimately show ?thesis using p1 p2 p3 p4 by blast
qed

text \<open>
  C10. \<open>waitWork\<close> reports \<open>input_end = true\<close> exactly when the flag \<open>input_end\<close> of the
  executor is set and the returned \<open>pkt_cnt\<close> is the whole count of its window. When the
  window wraps and only its head up to the end of the buffer is returned, the end of
  input is not reported, whatever the flag is.
\<close>

theorem waitWork_input_end:
  assumes "waitWork s min_pkt_cnt ws r = Inr (wk, r')"
  shows "w_input_end wk = (input_end (r' ! s) \<and> w_pkt_cnt wk = pkt_cnt (r' ! s))
    \<and> (\<not> w_timeout wk
         \<and> pkt_first (r' ! s) + clamp_min min_pkt_cnt (buffer_count (r' ! s)) \<le> buffer_count (r' ! s)
         \<and> buffer_count (r' ! s) - pkt_first (r' ! s) < pkt_cnt (r' ! s)
       \<longrightarrow> w_pkt_cnt wk = buffer_count (r' ! s) - pkt_first (r' ! s) \<and> \<not> w_input_end wk)"
proof -
  from assms(1) have s: "s < length r" using waitWork_Inr by blast
  from assms(1) have "same_plugins r r'" by (rule waitWork_same_plugins)
  with s have b: "buffer_count (r' ! s) = buffer_count (r ! s)"
    by (simp add: same_plugins_def)
  from waitWork_Inr [OF assms(1)] b show ?thesis
    by auto
qed

theorem waitWork_input_end_witness:
  "(\<exists>wk r'. waitWork 1 1 [] (wrapped_ring True None) = Inr (wk, r')
        \<and> input_end (r' ! 1) \<and> pkt_cnt (r' ! 1) = 4 \<and> w_pkt_cnt wk = 2 \<and> \<not> w_input_end wk)
   \<and> (\<exists>wk r'. waitWork 1 3 [] (wrapped_ring True None) = Inr (wk, r')
        \<and> input_end (r' ! 1) \<and> pkt_cnt (r' ! 1) = 4 \<and> w_pkt_cnt wk = 4 \<and> w_input_end wk)"
proof -
  let ?r = "wrapped_ring True None"
  obtain wk1 r1 where e1: "waitWork 1 1 [] ?r = Inr (wk1, r1)"
    and c1: "w_pkt_cnt wk1 = 2" and r1: "r1 = ?r"
    by (simp add: waitWork_def clamp_min_def must_wait_def wrapped_ring_def ringNext_def Let_def)
  obtain wk2 r2 where e2: "waitWork 1 3 [] ?r = Inr (wk2, r2)"
    and c2: "w_pkt_cnt wk2 = 4" and r2: "r2 = ?r"
    by (simp add: waitWork_def clamp_min_def must_wait_def wrapped_ring_def ringNext_def Let_def)
  have i: "input_end (?r ! 1)" "pkt_cnt (?r ! 1) = 4"
    by (simp_all add: wrapped_ring_def)
  from waitWork_input_end [OF e1] c1 i have "\<not> w_input_end wk1"
    by (simp add: r1)
  moreover from waitWork_input_end [OF e2] c2 i have "w_input_end wk2"
    by (simp add: r2)
  ultimately show ?thesis using e1 c1 e2 c2 i r1 r2 by blast
qed

section \<open>Properties of the restart of a plugin\<close>

text \<open>
  C7. A pending restart with new arguments (\<open>same_args = false\<close>) for which
  \<open>analyze\<close>, \<open>getOptions\<close> and \<open>start\<close> fail with the new arguments: the warning goes
  to the report of the restart data, the same three calls are made again with the arguments
  that were saved from the plugin before, on the plugin as the failed attempt has left it,
  and their result is the status that \<open>processPendingRestart\<close> returns.
\<close>

theorem restart_falls_back:
  assumes "restart e" and "restart_data e = Some rd" and "\<not> same_args rd"
    and "analyze_getOptions_start api (pluginName e) (rd_args rd) (before_analyze api (plugin e)) = (False, p5)"
  shows "\<exists>rd' e'.
      processPendingRestart api e =
        (fst (analyze_getOptions_start api (pluginName e) (saved_args api (plugin e)) p5), True, Some rd', e')
      \<and> rd_report rd' = rd_report rd @ [(Verbose, ''restarting plugin '' @ pluginName e),
                                        failed_restart_warning (pluginName e)]
      \<and> completed rd'
      \<and> plugin e' = snd (redirectReport api
            (fst (redirectReport api RestartReport (resetContext api (snd (stop api (plugin e))))))
            (snd (analyze_getOptions_start api (pluginName e) (saved_args api (plugin e)) p5)))
      \<and> \<not> restart e' \<and> restart_data e' = None"
  using assms
  by (simp add: processPendingRestart_def before_analyze_def saved_args_def restartPluginSession_def
      Let_def split_beta)

theorem restart_falls_back_witness:
  "\<exists>rd' e'. processPendingRestart file_plugin_api restart_requested = (True, True, Some rd', e')
     \<and> rd_report rd' = [(Verbose, ''restarting plugin file''),
                         (Warning, ''failed to restart plugin file, restarting with previous parameters'')]
     \<and> completed rd'
     \<and> plugin e' = \<lparr>fp_args = [''--pid'', ''100''], fp_flags = {NO_HELP, NO_EXIT_ON_ERROR},
                      fp_report = TspReport, fp_started = True\<rparr>
     \<and> \<not> restart e' \<and> restart_data e' = None"
  using restart_falls_back [of restart_requested
      "\<lparr>rd_report = [], same_args = False, rd_args = [''--invalid''], completed = False\<rparr>"
      file_plugin_api
      "\<lparr>fp_args = [''--invalid''], fp_flags = {NO_HELP, NO_EXIT_ON_ERROR},
        fp_report = RestartReport, fp_started = False\<rparr>"]
  by (simp add: restart_requested_def file_plugin_api_def analyze_getOptions_start_def
      before_analyze_def saved_args_def failed_restart_warning_def)

section \<open>Properties of the bitrate monitor\<close>

lemma period_totals_sums:
  "period_totals ps = (sum_list (map duration ps), sum_list (map packets ps), sum_list (map non_null ps))"
proof -
  have "fold (\<lambda>p (d, t, n). (d + duration p, t + packets p, n + non_null p)) ps (a, b, c)
      = (a + sum_list (map duration ps), b + sum_list (map packets ps), c + sum_list (map non_null ps))"
    for a b c
    by (induction ps arbitrary: a b c) (simp_all add: add.assoc)
  then show ?thesis by (simp add: period_totals_def)
qed

lemma sdiv_1000_pos: "(0 < (x::int) sdiv 1000) = (1000 \<le> x)" "1000 \<le> x \<Longrightarrow> x sdiv 1000 = x div 1000"
  by (auto simp: signed_divide_int_def sgn_if div_greater_zero_iff)

lemma computeBitrate_rates_eq:
  "fst (computeBitrate_rates ps :: ('b::{linordered_idom,divide}) \<times> 'b) =
     (if 1000 \<le> sum_list (map duration ps)
      then of_nat (sum_list (map packets ps)) * 1504 * 1000000 div of_int (sum_list (map duration ps) div 1000)
      else 0)"
  by (simp add: computeBitrate_rates_def period_totals_sums NanoSecPerMicroSec_def PKT_SIZE_BITS_def
      MicroSecPerSec_def sdiv_1000_pos Let_def)

lemma feed_statistics_frame:
  "periods (feed_statistics f b n st) = periods st"
  "periods_index (feed_statistics f b n st) = periods_index st"
  "startup (feed_statistics f b n st) = startup st"
  "last_second (feed_statistics f b n st) = last_second st"
  "summary (feed_statistics f b n st) = summary st"
  "stats (feed_statistics f b n st) = (if summary st then stats st @ [f b] else stats st)"
  "min_bitrate (feed_statistics f b n st) = min_bitrate st"
  "max_bitrate (feed_statistics f b n st) = max_bitrate st"
  "last_bitrate_status (feed_statistics f b n st) = last_bitrate_status st"
  "reports (feed_statistics f b n st) = reports st"
  "periodic_bitrate (feed_statistics f b n st) = periodic_bitrate st"
  "periodic_command (feed_statistics f b n st) = periodic_command st"
  by (simp_all add: feed_statistics_def)

lemma periodic_display_frame:
  "periods (periodic_display b n st) = periods st"
  "periods_index (periodic_display b n st) = periods_index st"
  "startup (periodic_display b n st) = startup st"
  "last_second (periodic_display b n st) = last_second st"
  "summary (periodic_display b n st) = summary st"
  "stats (periodic_display b n st) = stats st"
  "last_bitrate_status (periodic_display b n st) = last_bitrate_status st"
  "periodic_command (periodic_display b n st) = periodic_command st"
  "periodic_bitrate st \<le> 0 \<Longrightarrow> reports (periodic_display b n st) = reports st"
  by (simp_all add: periodic_display_def)

lemma periodic_launch_frame:
  "periods (snd (periodic_launch st)) = periods st"
  "periods_index (snd (periodic_launch st)) = periods_index st"
  "startup (snd (periodic_launch st)) = startup st"
  "last_second (snd (periodic_launch st)) = last_second st"
  "summary (snd (periodic_launch st)) = summary st"
  "stats (snd (periodic_launch st)) = stats st"
  "last_bitrate_status (snd (periodic_launch st)) = last_bitrate_status st"
  "reports (snd (periodic_launch st)) = reports st"
  "periodic_command st \<le> 0 \<Longrightarrow> \<not> fst (periodic_launch st)"
  by (simp_all add: periodic_launch_def)

lemma raise_alarm_frame:
  "periods (raise_alarm c s b n st) = periods st"
  "periods_index (raise_alarm c s b n st) = periods_index st"
  "startup (raise_alarm c s b n st) = startup st"
  "last_second (raise_alarm c s b n st) = last_second st"
  "summary (raise_alarm c s b n st) = summary st"
  "stats (raise_alarm c s b n st) = stats st"
  "last_bitrate_status (raise_alarm c s b n st) = s"
  "AlarmWarning s b \<in> set (reports (raise_alarm True s b n st))"
  by (simp_all add: raise_alarm_def Let_def)

lemma range_status_feed:
  "range_status b (feed_statistics f x y st) = range_status b st"
  by (simp add: range_status_def feed_statistics_frame)

lemmas monitor_frames =
  feed_statistics_frame periodic_display_frame periodic_launch_frame raise_alarm_frame
  range_status_feed

lemma computeBitrate_frame:
  "periods (computeBitrate f st) = periods st"
  "periods_index (computeBitrate f st) = periods_index st"
  "startup (computeBitrate f st) = startup st"
  "last_second (computeBitrate f st) = last_second st"
  "summary (computeBitrate f st) = summary st"
  by (simp_all add: computeBitrate_def Let_def split_beta monitor_frames)

lemma computeBitrate_stats:
  "stats (computeBitrate f st) =
     (if summary st then stats st @ [f (fst (computeBitrate_rates (periods st)))] else stats st)"
  by (simp add: computeBitrate_def Let_def split_beta monitor_frames)

lemma computeBitrate_status:
  "last_bitrate_status (computeBitrate f st) =
     range_status (fst (computeBitrate_rates (periods st))) st"
  by (simp add: computeBitrate_def Let_def split_beta monitor_frames)

lemma computeBitrate_alarm:
  assumes "range_status (fst (computeBitrate_rates (periods st))) st \<noteq> last_bitrate_status st"
  shows "AlarmWarning (range_status (fst (computeBitrate_rates (periods st))) st)
           (fst (computeBitrate_rates (periods st))) \<in> set (reports (computeBitrate f st))"
  using assms by (simp add: computeBitrate_def Let_def split_beta monitor_frames)

lemma computeBitrate_quiet:
  assumes "range_status (fst (computeBitrate_rates (periods st))) st = last_bitrate_status st"
    and "periodic_bitrate st \<le> 0" and "periodic_command st \<le> 0"
  shows "reports (computeBitrate f st) = reports st"
  using assms by (simp add: computeBitrate_def Let_def split_beta monitor_frames)

lemma checkTime_early: "now - last_second st < NanoSecPerSec \<Longrightarrow> checkTime f now st = Inr st"
  by (simp add: checkTime_def)

lemma checkTime_computes:
  assumes b: "NanoSecPerSec \<le> now - last_second st" and i: "periods_index st < length (periods st)"
    and su: "\<not> startup st"
  shows "\<exists>st'. checkTime f now st = Inr st'
    \<and> last_second st' = now
    \<and> periods_index st' = (periods_index st + 1) mod length (periods st)
    \<and> last_bitrate_status st' = range_status (fst (computeBitrate_rates (closed_periods now st))) st
    \<and> stats st' = (if summary st
                    then stats st @ [f (fst (computeBitrate_rates (closed_periods now st)))]
                    else stats st)
    \<and> (range_status (fst (computeBitrate_rates (closed_periods now st))) st \<noteq> last_bitrate_status st
        \<longrightarrow> AlarmWarning (range_status (fst (computeBitrate_rates (closed_periods now st))) st)
              (fst (computeBitrate_rates (closed_periods now st))) \<in> set (reports st'))
    \<and> (range_status (fst (computeBitrate_rates (closed_periods now st))) st = last_bitrate_status st
          \<and> periodic_bitrate st \<le> 0 \<and> periodic_command st \<le> 0
        \<longrightarrow> reports st' = reports st)"
proof -
  let ?st1 = "st\<lparr>periods := closed_periods now st, last_second := now\<rparr>"
  let ?c = "computeBitrate f ?st1"
  let ?i = "(periods_index st + 1) mod length (periods st)"
  have rs: "range_status x ?st1 = range_status x st" for x
    by (simp add: range_status_def)
  have e: "checkTime f now st =
      Inr (?c\<lparr>periods_index := ?i, periods := (periods ?c)[?i := Period_clear (periods ?c ! ?i)]\<rparr>)"
    using b i su
    by (simp add: checkTime_def Let_def closed_periods_def computeBitrate_frame)
  have st: "last_bitrate_status ?c = range_status (fst (computeBitrate_rates (closed_periods now st))) st"
    using computeBitrate_status [of f ?st1] by (simp add: rs)
  have al: "AlarmWarning (range_status (fst (computeBitrate_rates (closed_periods now st))) st)
              (fst (computeBitrate_rates (closed_periods now st))) \<in> set (reports ?c)"
    if "range_status (fst (computeBitrate_rates (closed_periods now st))) st \<noteq> last_bitrate_status st"
    using computeBitrate_alarm [of ?st1 f] that by (simp add: rs)
  have qu: "reports ?c = reports st"
    if "range_status (fst (computeBitrate_rates (closed_periods now st))) st = last_bitrate_status st"
      and "periodic_bitrate st \<le> 0" and "periodic_command st \<le> 0"
    using computeBitrate_quiet [of ?st1 f] that by (simp add: rs)
  show ?thesis
    unfolding e using st al qu
    by (simp add: computeBitrate_frame computeBitrate_stats)
qed

lemma checkTime_startup:
  assumes "NanoSecPerSec \<le> now - last_second st" and "periods_index st < length (periods st)"
    and "startup st"
  shows "\<exists>st'. checkTime f now st = Inr st'
    \<and> last_second st' = now
    \<and> periods_index st' = (periods_index st + 1) mod length (periods st)
    \<and> startup st' = ((periods_index st + 1) mod length (periods st) \<noteq> 0)
    \<and> last_bitrate_status st' = last_bitrate_status st
    \<and> stats st' = stats st \<and> reports st' = reports st"
  using assms by (simp add: checkTime_def Let_def)

lemma checkTime_boundary:
  assumes inv: "monitor_inv W j rs st" and W: "0 < W" and b: "NanoSecPerSec \<le> now - last_second st"
  shows "\<exists>st'. checkTime f now st = Inr st' \<and> monitor_inv W (Suc j) rs st'
      \<and> last_second st' = now \<and> summary st' = summary st"
proof -
  from inv W have i: "periods_index st < length (periods st)" and len: "length (periods st) = W"
    and idx: "periods_index st = j mod W" and su: "startup st = (j < W)"
    and sl: "summary st \<longrightarrow> length (stats st) = j - W"
    and q: "j \<le> W \<longrightarrow> last_bitrate_status st = IN_RANGE \<and> reports st = rs \<and> stats st = []"
    by (simp_all add: monitor_inv_def)
  have m: "(j mod W + 1) mod W = Suc j mod W"
    by (simp add: mod_Suc_eq)
  have z: "(Suc j mod W \<noteq> 0) = (Suc j < W)" if "j < W"
    using that W by (cases "Suc j = W") auto
  show ?thesis
  proof (cases "j < W")
    case True
    with b i len idx su sl q m z W show ?thesis
      by (simp add: checkTime_def Let_def monitor_inv_def)
  next
    case False
    with b i len idx su sl m W show ?thesis
      by (auto simp: checkTime_def Let_def monitor_inv_def computeBitrate_frame computeBitrate_stats Suc_diff_le)
  qed
qed

lemma run_checkTime_boundaries:
  assumes "monitor_inv W j rs st" and "0 < W" and "second_boundaries (last_second st) ts"
  shows "\<exists>st'. run_checkTime f ts st = Inr st' \<and> monitor_inv W (j + length ts) rs st'
      \<and> summary st' = summary st \<and> last_second st' = last (last_second st # ts)"
  using assms
proof (induction ts arbitrary: st j)
  case Nil
  then show ?case by simp
next
  case (Cons now ts)
  from Cons.prems obtain st1 where c: "checkTime f now st = Inr st1"
    and i1: "monitor_inv W (Suc j) rs st1" and l1: "last_second st1 = now" and s1: "summary st1 = summary st"
    using checkTime_boundary [of W j rs st now f] by auto
  from Cons.prems l1 have "second_boundaries (last_second st1) ts" by simp
  from Cons.IH [OF i1 Cons.prems(2) this] c s1 l1 show ?case by auto
qed

lemma monitor_start_inv:
  "0 < window_size st \<Longrightarrow>
   monitor_inv (window_size st) 0 (reports st) (snd (monitor_start tstart st))"
  "last_second (snd (monitor_start tstart st)) = tstart"
  "summary (snd (monitor_start tstart st)) = summary st"
  by (simp_all add: monitor_start_def monitor_inv_def)

text \<open>
  C8. The bitrate that \<open>computeBitrate\<close> computes is the sum of the packets of all
  periods, times 1504 bits and \<open>10^6\<close>, divided by the sum of the durations in
  microseconds, and 0 when that sum is less than a microsecond. \<open>checkTime\<close> does
  nothing before a second has elapsed on the monotonic clock. At a second boundary after
  the startup it closes the current period, starts the next second at that reading of the
  clock, and computes that bitrate over the window: whatever the options are, the status
  of the plugin becomes the place of that bitrate in the allowed range, and a change of
  status is reported with that bitrate; it is fed to the statistics when the summary is
  asked for. At a second boundary of the startup it computes and reports nothing. After
  \<open>start\<close> with a window of \<open>W\<close> periods, the startup lasts for \<open>W\<close> second
  boundaries: until then the status is the initial one and nothing has been reported or
  fed, and the statistics receive one bitrate for each boundary after these.
\<close>

theorem bitrate_computation:
  fixes st :: "('b::{linordered_idom,divide}) monitor"
  shows "fst (computeBitrate_rates ps :: 'b \<times> 'b) =
           (if 1000 \<le> sum_list (map duration ps)
            then of_nat (sum_list (map packets ps)) * 1504 * 1000000
                   div of_int (sum_list (map duration ps) div 1000)
            else 0)
    \<and> (now - last_second st < NanoSecPerSec \<longrightarrow> checkTime f now st = Inr st)
    \<and> (NanoSecPerSec \<le> now - last_second st \<and> periods_index st < length (periods st)
          \<and> \<not> startup st
        \<longrightarrow> (\<exists>st'. checkTime f now st = Inr st'
              \<and> last_second st' = now
              \<and> periods_index st' = (periods_index st + 1) mod length (periods st)
              \<and> last_bitrate_status st' =
                  range_status (fst (computeBitrate_rates (closed_periods now st))) st
              \<and> stats st' =
                  (if summary st
                   then stats st @ [f (fst (computeBitrate_rates (closed_periods now st)))]
                   else stats st)
              \<and> (range_status (fst (computeBitrate_rates (closed_periods now st))) st
                    \<noteq> last_bitrate_status st
                  \<longrightarrow> AlarmWarning
                        (range_status (fst (computeBitrate_rates (closed_periods now st))) st)
                        (fst (computeBitrate_rates (closed_periods now st))) \<in> set (reports st'))
              \<and> (range_status (fst (computeBitrate_rates (closed_periods now st))) st
                    = last_bitrate_status st
                    \<and> periodic_bitrate st \<le> 0 \<and> periodic_command st \<le> 0
                  \<longrightarrow> reports st' = reports st)))
    \<and> (NanoSecPerSec \<le> now - last_second st \<and> periods_index st < length (periods st)
          \<and> startup st
        \<longrightarrow> (\<exists>st'. checkTime f now st = Inr st'
              \<and> last_second st' = now
              \<and> periods_index st' = (periods_index st + 1) mod length (periods st)
              \<and> startup st' = ((periods_index st + 1) mod length (periods st) \<noteq> 0)
              \<and> last_bitrate_status st' = last_bitrate_status st
              \<and> stats st' = stats st \<and> reports st' = reports st))
    \<and> (0 < window_size st \<and> second_boundaries tstart ts
        \<longrightarrow> (\<exists>st'. run_checkTime f ts (snd (monitor_start tstart st)) = Inr st'
              \<and> startup st' = (length ts < window_size st)
              \<and> periods_index st' = length ts mod window_size st
              \<and> last_second st' = last (tstart # ts)
              \<and> (summary st \<longrightarrow> length (stats st') = length ts - window_size st)
              \<and> (length ts \<le> window_size st
                  \<longrightarrow> last_bitrate_status st' = IN_RANGE \<and> reports st' = reports st
                      \<and> stats st' = [])))"
proof (intro conjI impI)
  show "fst (computeBitrate_rates ps :: 'b \<times> 'b) =
           (if 1000 \<le> sum_list (map duration ps)
            then of_nat (sum_list (map packets ps)) * 1504 * 1000000
                   div of_int (sum_list (map duration ps) div 1000)
            else 0)"
    by (rule computeBitrate_rates_eq)
next
  assume "now - last_second st < NanoSecPerSec"
  then show "checkTime f now st = Inr st" by (rule checkTime_early)
next
  assume a: "NanoSecPerSec \<le> now - last_second st \<and> periods_index st < length (periods st)
          \<and> \<not> startup st"
  from a have a1: "NanoSecPerSec \<le> now - last_second st"
    and a2: "periods_index st < length (periods st)" and a3: "\<not> startup st"
    by simp_all
  show "\<exists>st'. checkTime f now st = Inr st'
              \<and> last_second st' = now
              \<and> periods_index st' = (periods_index st + 1) mod length (periods st)
              \<and> last_bitrate_status st' =
                  range_status (fst (computeBitrate_rates (closed_periods now st))) st
              \<and> stats st' =
                  (if summary st
                   then stats st @ [f (fst (computeBitrate_rates (closed_periods now st)))]
                   else stats st)
              \<and> (range_status (fst (computeBitrate_rates (closed_periods now st))) st
                    \<noteq> last_bitrate_status st
                  \<longrightarrow> AlarmWarning
                        (range_status (fst (computeBitrate_rates (closed_periods now st))) st)
                        (fst (computeBitrate_rates (closed_periods now st))) \<in> set (reports st'))
              \<and> (range_status (fst (computeBitrate_rates (closed_periods now st))) st
                    = last_bitrate_status st
                    \<and> periodic_bitrate st \<le> 0 \<and> periodic_command st \<le> 0
                  \<longrightarrow> reports st' = reports st)"
    by (rule checkTime_computes [OF a1 a2 a3])
next
  assume a: "NanoSecPerSec \<le> now - last_second st \<and> periods_index st < length (periods st)
          \<and> startup st"
  from a have a1: "NanoSecPerSec \<le> now - last_second st"
    and a2: "periods_index st < length (periods st)" and a3: "startup st"
    by simp_all
  show "\<exists>st'. checkTime f now st = Inr st'
              \<and> last_second st' = now
              \<and> periods_index st' = (periods_index st + 1) mod length (periods st)
              \<and> startup st' = ((periods_index st + 1) mod length (periods st) \<noteq> 0)
              \<and> last_bitrate_status st' = last_bitrate_status st
              \<and> stats st' = stats st \<and> reports st' = reports st"
    by (rule checkTime_startup [OF a1 a2 a3])
next
  assume a: "0 < window_size st \<and> second_boundaries tstart ts"
  let ?s0 = "snd (monitor_start tstart st)"
  from a have sb: "second_boundaries (last_second ?s0) ts" by (simp add: monitor_start_inv)
  from a have W: "0 < window_size st" by simp
  from run_checkTime_boundaries [OF monitor_start_inv(1) [OF W] W sb, of f]
  obtain st' where r: "run_checkTime f ts ?s0 = Inr st'"
    and i: "monitor_inv (window_size st) (length ts) (reports st) st'"
    and s: "summary st' = summary st" and l: "last_second st' = last (tstart # ts)"
    by (auto simp: monitor_start_inv)
  from i s l have "startup st' = (length ts < window_size st)
              \<and> periods_index st' = length ts mod window_size st
              \<and> last_second st' = last (tstart # ts)
              \<and> (summary st \<longrightarrow> length (stats st') = length ts - window_size st)
              \<and> (length ts \<le> window_size st
                  \<longrightarrow> last_bitrate_status st' = IN_RANGE \<and> reports st' = reports st
                      \<and> stats st' = [])"
    by (simp add: monitor_inv_def)
  with r show "\<exists>st'. run_checkTime f ts ?s0 = Inr st'
              \<and> startup st' = (length ts < window_size st)
              \<and> periods_index st' = length ts mod window_size st
              \<and> last_second st' = last (tstart # ts)
              \<and> (summary st \<longrightarrow> length (stats st') = length ts - window_size st)
              \<and> (length ts \<le> window_size st
                  \<longrightarrow> last_bitrate_status st' = IN_RANGE \<and> reports st' = reports st
                      \<and> stats st' = [])"
    by blast
qed

theorem bitrate_computation_witness:
  "fst (computeBitrate_rates [\<lparr>duration = 1000000000, packets = 1000, non_null = 900\<rparr>,
                              \<lparr>duration = 1000000999, packets = 1000, non_null = 1000\<rparr>] :: rat \<times> rat)
     = 1504000
   \<and> checkTime floor 999999999 (snd (monitor_start 0 monitor0)) = Inr (snd (monitor_start 0 monitor0))
   \<and> (\<exists>st'. checkTime floor 3000000999 measuring_monitor = Inr st' \<and> last_second st' = 3000000999
         \<and> last_bitrate_status st' = IN_RANGE \<and> stats st' = [1504000] \<and> reports st' = [])
   \<and> (\<exists>st'. checkTime floor 3000000000 idle_monitor = Inr st' \<and> last_second st' = 3000000000
         \<and> last_bitrate_status st' = LOWER \<and> stats st' = []
         \<and> AlarmWarning LOWER 0 \<in> set (reports st'))
   \<and> (\<exists>st'. checkTime floor 1000000000 (snd (monitor_start 0 monitor0)) = Inr st'
         \<and> last_second st' = 1000000000 \<and> startup st' \<and> last_bitrate_status st' = IN_RANGE
         \<and> stats st' = [] \<and> reports st' = [])
   \<and> (\<exists>st'. run_checkTime floor [1000000000, 2000000000]
               (snd (monitor_start 0 (monitor0\<lparr>summary := False\<rparr>))) = Inr st'
         \<and> \<not> startup st' \<and> periods_index st' = 0 \<and> last_second st' = 2000000000
         \<and> last_bitrate_status st' = IN_RANGE \<and> reports st' = [] \<and> stats st' = [])
   \<and> (\<exists>st'. run_checkTime floor [1000000000, 2000000000, 3000000000] (snd (monitor_start 0 monitor0))
               = Inr st'
         \<and> \<not> startup st' \<and> periods_index st' = 1 \<and> last_second st' = 3000000000
         \<and> length (stats st') = 1)"
proof -
  let ?ps = "[\<lparr>duration = 1000000000, packets = 1000, non_null = 900\<rparr>,
              \<lparr>duration = 1000000999, packets = 1000, non_null = 1000\<rparr>]"
  let ?qs = "[\<lparr>duration = 1000000000, packets = 0, non_null = 0\<rparr>,
              \<lparr>duration = 1000000000, packets = 0, non_null = 0\<rparr>]"
  have a: "fst (computeBitrate_rates ?ps :: rat \<times> rat) = 1504000"
    using bitrate_computation [where 'b = rat and ps = ?ps, THEN conjunct1] by simp
  have a0: "fst (computeBitrate_rates ?qs :: rat \<times> rat) = 0"
    using bitrate_computation [where 'b = rat and ps = ?qs, THEN conjunct1] by simp
  have b: "checkTime floor 999999999 (snd (monitor_start 0 monitor0)) = Inr (snd (monitor_start 0 monitor0))"
    using bitrate_computation [where 'b = rat and f = floor and now = 999999999
        and st = "snd (monitor_start 0 monitor0)", THEN conjunct2, THEN conjunct1]
    by (simp add: monitor_start_def NanoSecPerSec_def)
  have c: "\<exists>st'. checkTime floor 3000000999 measuring_monitor = Inr st' \<and> last_second st' = 3000000999
         \<and> last_bitrate_status st' = IN_RANGE \<and> stats st' = [1504000] \<and> reports st' = []"
    using bitrate_computation [where 'b = rat and f = floor and st = measuring_monitor
        and now = 3000000999, THEN conjunct2, THEN conjunct2, THEN conjunct1] a
    by (auto simp: measuring_monitor_def monitor_start_def monitor0_def NanoSecPerSec_def
        closed_periods_def range_status_def)
  have c0: "\<exists>st'. checkTime floor 3000000000 idle_monitor = Inr st' \<and> last_second st' = 3000000000
         \<and> last_bitrate_status st' = LOWER \<and> stats st' = []
         \<and> AlarmWarning LOWER 0 \<in> set (reports st')"
    using bitrate_computation [where 'b = rat and f = floor and st = idle_monitor
        and now = 3000000000, THEN conjunct2, THEN conjunct2, THEN conjunct1] a0
    by (auto simp: idle_monitor_def monitor_start_def monitor0_def NanoSecPerSec_def
        closed_periods_def range_status_def)
  have s: "\<exists>st'. checkTime floor 1000000000 (snd (monitor_start 0 monitor0)) = Inr st'
         \<and> last_second st' = 1000000000 \<and> startup st' \<and> last_bitrate_status st' = IN_RANGE
         \<and> stats st' = [] \<and> reports st' = []"
    using bitrate_computation [where 'b = rat and f = floor and st = "snd (monitor_start 0 monitor0)"
        and now = 1000000000, THEN conjunct2, THEN conjunct2, THEN conjunct2, THEN conjunct1]
    by (auto simp: monitor_start_def monitor0_def NanoSecPerSec_def)
  have d: "\<exists>st'. run_checkTime floor [1000000000, 2000000000]
               (snd (monitor_start 0 (monitor0\<lparr>summary := False\<rparr>))) = Inr st'
         \<and> \<not> startup st' \<and> periods_index st' = 0 \<and> last_second st' = 2000000000
         \<and> last_bitrate_status st' = IN_RANGE \<and> reports st' = [] \<and> stats st' = []"
    using bitrate_computation [where 'b = rat and f = floor and st = "monitor0\<lparr>summary := False\<rparr>"
        and tstart = 0 and ts = "[1000000000, 2000000000]",
        THEN conjunct2, THEN conjunct2, THEN conjunct2, THEN conjunct2]
    by (auto simp: monitor0_def NanoSecPerSec_def)
  have d3: "\<exists>st'. run_checkTime floor [1000000000, 2000000000, 3000000000] (snd (monitor_start 0 monitor0))
               = Inr st'
         \<and> \<not> startup st' \<and> periods_index st' = 1 \<and> last_second st' = 3000000000
         \<and> length (stats st') = 1"
    using bitrate_computation [where 'b = rat and f = floor and st = monitor0 and tstart = 0
        and ts = "[1000000000, 2000000000, 3000000000]",
        THEN conjunct2, THEN conjunct2, THEN conjunct2, THEN conjunct2]
    by (auto simp: monitor0_def NanoSecPerSec_def)
  from a b c c0 s d d3 show ?thesis by blast
qed

section \<open>Properties of the store of logical channel numbers\<close>

lemma findLCN_loop_ok:
  "fallback_ok m srv_id ts onet result \<Longrightarrow>
   fallback_ok m srv_id ts onet (findLCN_loop m srv_id ts onet it result)"
proof (induction m srv_id ts onet it result rule: findLCN_loop.induct)
  case (1 m srv_id ts onet it result)
  show ?case
    using "1.prems" "1.IH"
    by (subst findLCN_loop.simps) (auto simp: fallback_ok_def)
qed

lemma findLCN_ok: "fallback_ok m srv_id ts onet (findLCN m srv_id ts onet)"
  unfolding findLCN_def by (rule findLCN_loop_ok) (simp add: fallback_ok_def)

lemma lcn_store_eq:
  "lcn_store =
     [(50, \<lparr>lcn = 9, ts_id = 1, onet_id = 0x20, visible = True\<rparr>),
      (100, \<lparr>lcn = 5, ts_id = 1, onet_id = 0xFFFF, visible = True\<rparr>),
      (100, \<lparr>lcn = 7, ts_id = 1, onet_id = 0xFFF, visible = True\<rparr>)]"
  by (simp add: lcn_store_def addLCN_def addLCN_loop.simps lower_bound_def upper_bound_def)

text \<open>
  C9. An entry that \<open>findLCN\<close> returns has the service id and the transport stream id
  of the query, and when its original network id is not the one of the query, it is
  \<open>0xFFF\<close>: the entry was kept as a possible match. So an entry whose original network
  id is \<open>0xFFFF\<close>, the documented value for "unspecified", is never returned to a query
  for another original network id.
\<close>

theorem findLCN_fallback:
  "(findLCN m srv_id ts onet < length m \<longrightarrow>
      fst (m ! findLCN m srv_id ts onet) = srv_id
      \<and> ts_id (snd (m ! findLCN m srv_id ts onet)) = ts
      \<and> (onet_id (snd (m ! findLCN m srv_id ts onet)) \<noteq> onet
           \<longrightarrow> onet_id (snd (m ! findLCN m srv_id ts onet)) = 0xFFF))
   \<and> (\<forall>i<length m. onet_id (snd (m ! i)) = 0xFFFF \<and> onet \<noteq> 0xFFFF
          \<longrightarrow> findLCN m srv_id ts onet \<noteq> i)"
  using findLCN_ok [of m srv_id ts onet] by (auto simp: fallback_ok_def)

theorem findLCN_fallback_witness:
  "findLCN lcn_store 100 1 0x20 = 2 \<and> 2 < length lcn_store
   \<and> onet_id (snd (lcn_store ! 2)) = 0xFFF
   \<and> onet_id (snd (lcn_store ! 1)) = 0xFFFF \<and> ts_id (snd (lcn_store ! 1)) = 1 \<and> fst (lcn_store ! 1) = 100
   \<and> findLCN lcn_store 100 1 0x20 \<noteq> 1
   \<and> getLCN (take 2 lcn_store) 100 1 0x20 = 0xFFFF"
proof -
  have f: "findLCN lcn_store 100 1 0x20 = 2"
    by (simp add: lcn_store_eq findLCN_def findLCN_loop.simps lower_bound_def)
  have g: "getLCN (take 2 lcn_store) 100 1 0x20 = 0xFFFF"
    by (simp add: lcn_store_eq getLCN_def findLCN_def findLCN_loop.simps lower_bound_def)
  from findLCN_fallback [of lcn_store 100 1 "0x20"] f g show ?thesis
    by (simp add: lcn_store_eq)
qed

end
